theory Spec2Isabelle
  imports Complex_Main "HOL-Library.Word" "HOL-Library.AList"
begin

unbundle bit_operations_syntax

chapter \<open>The model\<close>

section \<open>JavaScript numbers\<close>

text \<open>
  A JavaScript number is an IEEE 754 double. The values met here are finite and far from
  the ends of the exponent range, so a number is modelled by the rational it denotes and
  every arithmetic operation by the exact operation followed by \<open>fl\<close>, rounding to the
  nearest value with a 53-bit significand, ties to the even significand.
\<close>

function bit_length :: "int \<Rightarrow> int" where
  "bit_length n = (if n \<le> 0 then 0 else bit_length (n div 2) + 1)"
  by pat_completeness auto
termination
  by (relation "measure nat") auto

declare bit_length.simps [simp del]

text \<open>\<open>ilog2 q\<close> is the exponent \<open>e\<close> with \<open>2\<^sup>e \<le> q < 2\<^sup>e\<^sup>+\<^sup>1\<close>, for \<open>q > 0\<close>.\<close>

definition ilog2 :: "rat \<Rightarrow> int" where
  "ilog2 q =
     (let (a, b) = quotient_of q;
          d = bit_length a - bit_length b
      in if 2 powi d \<le> q then d else d - 1)"

definition round_even :: "rat \<Rightarrow> int" where
  "round_even m =
     (let f = \<lfloor>m\<rfloor>; r = m - of_int f
      in if r < 1 / 2 then f else if 1 / 2 < r then f + 1 else if even f then f else f + 1)"

definition fl :: "rat \<Rightarrow> rat" where
  "fl x =
     (if x = 0 then 0
      else let e = ilog2 \<bar>x\<bar> - 52;
               m = \<bar>x\<bar> / 2 powi e
           in sgn x * of_int (round_even m) * 2 powi e)"

definition js_add :: "rat \<Rightarrow> rat \<Rightarrow> rat" where
  "js_add a b = fl (a + b)"

definition js_mul :: "rat \<Rightarrow> rat \<Rightarrow> rat" where
  "js_mul a b = fl (a * b)"

definition js_div :: "rat \<Rightarrow> rat \<Rightarrow> rat" where
  "js_div a b = fl (a / b)"

text \<open>The literals \<^verbatim>\<open>0.2\<close> and \<^verbatim>\<open>0.6\<close> denote the doubles nearest to 1/5 and 3/5.\<close>

definition lit_0_2 :: rat where
  "lit_0_2 = fl (2 / 10)"

definition lit_0_6 :: rat where
  "lit_0_6 = fl (6 / 10)"

text \<open>
  Storing a number into an \<^verbatim>\<open>Int16Array\<close> applies ToInt16: the fraction is cut off
  (towards zero) and the integer is reduced modulo \<open>2\<^sup>1\<^sup>6\<close>. Reading an element gives its
  signed value, \<open>sint\<close>.
\<close>

definition trunc :: "rat \<Rightarrow> int" where
  "trunc x = (if x < 0 then \<lceil>x\<rceil> else \<lfloor>x\<rfloor>)"

definition toInt16 :: "rat \<Rightarrow> 16 word" where
  "toInt16 x = word_of_int (trunc x)"

section \<open>Codec (audio-utils.js): the two lookup tables\<close>

definition BIAS :: int where "BIAS = 0x84"
definition CLIP :: int where "CLIP = 8159"
definition SEG_MASK :: int where "SEG_MASK = 0x70"
definition SEG_SHIFT :: nat where "SEG_SHIFT = 4"
definition SIGN_BIT :: int where "SIGN_BIT = 0x80"

text \<open>
  The bitwise operators work on 32-bit integers; all operands here stay below \<open>2\<^sup>1\<^sup>6\<close> in
  magnitude, so they are the bit operations on \<open>int\<close>.
  The body of the first loop of \<^verbatim>\<open>initTables\<close>, for index \<open>i\<close>:
\<close>

definition ulawToLinear_at :: "nat \<Rightarrow> 16 word" where
  "ulawToLinear_at i =
     (let ulaw = NOT (int i);
          t = push_bit 3 (ulaw AND 0x0f) + BIAS;
          t = push_bit (nat (drop_bit SEG_SHIFT (ulaw AND SEG_MASK))) t
      in word_of_int (if ulaw AND SIGN_BIT \<noteq> 0 then BIAS - t else t - BIAS))"

definition ulawToLinear :: "16 word list" where
  "ulawToLinear = fold (\<lambda>i tab. tab[i := ulawToLinear_at i]) [0..<256] (replicate 256 0)"

text \<open>The nested \<^verbatim>\<open>if (sample > 0x1F) { exponent = 1; if (sample > 0x3F) { ... } }\<close>:\<close>

definition exponent_of :: "int \<Rightarrow> int" where
  "exponent_of sample =
     (if sample > 0x1F then
        if sample > 0x3F then
          if sample > 0x7F then
            if sample > 0xFF then
              if sample > 0x1FF then
                if sample > 0x3FF then
                  if sample > 0x7FF then 7 else 6
                else 5
              else 4
            else 3
          else 2
        else 1
      else 0)"

text \<open>The body of the second loop, for the loop variable \<open>i\<close> from -32768 to 32767:\<close>

definition linearToUlaw_at :: "int \<Rightarrow> 8 word" where
  "linearToUlaw_at i =
     (let sample = i;
          sign = drop_bit 8 sample AND 0x80;
          sample = (if sample < 0 then - sample else sample);
          sample = (if sample > CLIP then CLIP else sample);
          sample = sample + BIAS;
          exponent = exponent_of sample;
          mantissa = drop_bit (nat (exponent + 3)) sample AND 0x0F;
          ulawByte = NOT (sign OR push_bit 4 exponent OR mantissa)
      in word_of_int (ulawByte AND 0xFF))"

definition linearToUlaw :: "8 word list" where
  "linearToUlaw =
     fold (\<lambda>i tab. tab[nat (i + 32768) := linearToUlaw_at i]) [-32768..32767]
       (replicate 65536 0)"

text \<open>
  \<^verbatim>\<open>decodeUlaw\<close> takes bytes (a Buffer), \<^verbatim>\<open>encodeUlaw\<close> an \<^verbatim>\<open>Int16Array\<close>; every index into
  a table is in range for these element types.
\<close>

definition decodeUlaw :: "8 word list \<Rightarrow> 16 word list" where
  "decodeUlaw buffer =
     (let len = length buffer
      in fold (\<lambda>i result. result[i := ulawToLinear ! unat (buffer ! i)])
           [0..<len] (replicate len 0))"

definition encodeUlaw :: "16 word list \<Rightarrow> 8 word list" where
  "encodeUlaw buffer =
     (let len = length buffer
      in fold (\<lambda>i result. let val = sint (buffer ! i)
                           in result[i := linearToUlaw ! nat (val + 32768)])
           [0..<len] (replicate len 0))"

section \<open>Resampler (audio-utils.js)\<close>

text \<open>
  \<^verbatim>\<open>upsample8kTo16k\<close>. The guard \<^verbatim>\<open>i < len - 1\<close> is \<open>i + 1 < len\<close>; every read is in
  range. Three copies of audio-utils.js compute the midpoint as
  \<^verbatim>\<open>(current + next) / 2\<close>, the fourth as \<^verbatim>\<open>(current + next) * 0.5\<close>.
\<close>

definition upsample8kTo16k :: "16 word list \<Rightarrow> 16 word list" where
  "upsample8kTo16k pcm8k =
     (let len = length pcm8k
      in fold (\<lambda>i result.
                 let current = of_int (sint (pcm8k ! i));
                     next = (if i + 1 < len then of_int (sint (pcm8k ! (i + 1))) else current)
                 in result[i * 2 := toInt16 current,
                           i * 2 + 1 := toInt16 (js_div (js_add current next) 2)])
           [0..<len] (replicate (len * 2) 0))"

definition upsample8kTo16k_half :: "16 word list \<Rightarrow> 16 word list" where
  "upsample8kTo16k_half pcm8k =
     (let len = length pcm8k
      in fold (\<lambda>i result.
                 let current = of_int (sint (pcm8k ! i));
                     next = (if i + 1 < len then of_int (sint (pcm8k ! (i + 1))) else current)
                 in result[i * 2 := toInt16 current,
                           i * 2 + 1 := toInt16 (js_mul (js_add current next) (1 / 2))])
           [0..<len] (replicate (len * 2) 0))"

text \<open>
  \<^verbatim>\<open>downsample24kTo8k\<close> exists in four forms. \<^verbatim>\<open>Math.floor(len / 3)\<close> on an array length
  is \<open>len div 3\<close> (lemma \<open>floor_third\<close> below). An element read outside the array is
  \<^verbatim>\<open>undefined\<close>, which an \<^verbatim>\<open>Int16Array\<close> stores as 0.
\<close>

definition elem_or_undefined :: "16 word list \<Rightarrow> nat \<Rightarrow> 16 word" where
  "elem_or_undefined a k = (if k < length a then a ! k else 0)"

text \<open>The oldest form takes every third sample.\<close>

definition downsample24kTo8k_every3rd :: "16 word list \<Rightarrow> 16 word list" where
  "downsample24kTo8k_every3rd pcm24k =
     (let len = length pcm24k;
          targetLen = len div 3
      in fold (\<lambda>i result. result[i := elem_or_undefined pcm24k (i * 3)])
           [0..<targetLen] (replicate targetLen 0))"

text \<open>"Weighted Average Downsampling", weights 0.25, 0.5, 0.25, no gain.\<close>

definition downsample24kTo8k_weighted :: "16 word list \<Rightarrow> 16 word list" where
  "downsample24kTo8k_weighted pcm24k =
     (let len = length pcm24k;
          targetLen = len div 3
      in fold (\<lambda>i result.
                 let idx = i * 3
                 in if idx + 2 < len then
                      let p1 = of_int (sint (pcm24k ! idx));
                          p2 = of_int (sint (pcm24k ! (idx + 1)));
                          p3 = of_int (sint (pcm24k ! (idx + 2)))
                      in result[i := toInt16 (js_add (js_add (js_mul p1 (1 / 4)) (js_mul p2 (1 / 2)))
                                                     (js_mul p3 (1 / 4)))]
                    else result[i := elem_or_undefined pcm24k idx])
           [0..<targetLen] (replicate targetLen 0))"

text \<open>\<^verbatim>\<open>Math.max(-32768, Math.min(32767, p))\<close>\<close>

definition clamp16 :: "rat \<Rightarrow> rat" where
  "clamp16 p = max (- 32768) (min 32767 p)"

text \<open>"Professional DSP Pipeline": gain 2.5, clamp, weights 0.2, 0.6, 0.2.\<close>

definition downsample24kTo8k_gain25 :: "16 word list \<Rightarrow> 16 word list" where
  "downsample24kTo8k_gain25 pcm24k =
     (let len = length pcm24k;
          targetLen = len div 3
      in fold (\<lambda>i result.
                 let idx = i * 3
                 in if idx + 2 < len then
                      let p1 = js_mul (of_int (sint (pcm24k ! idx))) (5 / 2);
                          p2 = js_mul (of_int (sint (pcm24k ! (idx + 1)))) (5 / 2);
                          p3 = js_mul (of_int (sint (pcm24k ! (idx + 2)))) (5 / 2);
                          p1 = clamp16 p1;
                          p2 = clamp16 p2;
                          p3 = clamp16 p3
                      in result[i := toInt16 (js_add (js_add (js_mul p1 lit_0_2) (js_mul p2 lit_0_6))
                                                     (js_mul p3 lit_0_2))]
                    else result[i := elem_or_undefined pcm24k idx])
           [0..<targetLen] (replicate targetLen 0))"

text \<open>"Professional DSP Pipeline v3": gain 1.5, clamp, weights 0.25, 0.5, 0.25.\<close>

definition downsample24kTo8k_gain15 :: "16 word list \<Rightarrow> 16 word list" where
  "downsample24kTo8k_gain15 pcm24k =
     (let len = length pcm24k;
          targetLen = len div 3
      in fold (\<lambda>i result.
                 let idx = i * 3
                 in if idx + 2 < len then
                      let p1 = js_mul (of_int (sint (pcm24k ! idx))) (3 / 2);
                          p2 = js_mul (of_int (sint (pcm24k ! (idx + 1)))) (3 / 2);
                          p3 = js_mul (of_int (sint (pcm24k ! (idx + 2)))) (3 / 2);
                          p1 = clamp16 p1;
                          p2 = clamp16 p2;
                          p3 = clamp16 p3
                      in result[i := toInt16 (js_add (js_add (js_mul p1 (1 / 4)) (js_mul p2 (1 / 2)))
                                                     (js_mul p3 (1 / 4)))]
                    else result[i := elem_or_undefined pcm24k idx])
           [0..<targetLen] (replicate targetLen 0))"

text \<open>
  The triangular combination as the specification words it, with the default weights
  0.25, 0.5, 0.25 and no rounding; the code is compared with it below.
\<close>

definition spec_triangular :: "rat \<Rightarrow> rat \<Rightarrow> rat \<Rightarrow> rat" where
  "spec_triangular a b c = a / 4 + b / 2 + c / 4"

section \<open>Order store (server.js, data layer)\<close>

text \<open>
  The store is the file \<^verbatim>\<open>orders.json\<close>. The program reads it with
  \<^verbatim>\<open>JSON.parse\<close> and writes it with \<^verbatim>\<open>JSON.stringify\<close>, so its content is
  modelled by what parsing yields: the file is absent, its text does not parse, or it
  parses to a JSON value. Objects are association lists in insertion order.
  Numbers are integers here (no property below looks at a number), and a write to the
  file system is taken to succeed.
\<close>

datatype json =
    JNull
  | JBool bool
  | JNum int
  | JStr string
  | JArr "json list"
  | JObj "(string \<times> json) list"

datatype orders_file = Absent | Unparseable | Parsed json

datatype js_error = TypeError | RangeError

text \<open>
  \<^verbatim>\<open>getSavedOrders\<close> (second revision of server.js):
  \<^verbatim>\<open>if (existsSync) { try { return JSON.parse(readFileSync) } catch (e) { return [] } } return []\<close>
\<close>

fun getSavedOrders :: "orders_file \<Rightarrow> json" where
  "getSavedOrders Absent = JArr []"
| "getSavedOrders Unparseable = JArr []"
| "getSavedOrders (Parsed j) = j"

text \<open>
  \<^verbatim>\<open>orders.unshift(order)\<close> is a method call on whatever was parsed: on anything but an
  array it raises a TypeError, which neither revision catches.
\<close>

fun unshift :: "json \<Rightarrow> json \<Rightarrow> js_error + json" where
  "unshift order (JArr os) = Inr (JArr (order # os))"
| "unshift order _ = Inl TypeError"

text \<open>
  \<^verbatim>\<open>saveOrderToFile\<close>, second revision:
  \<^verbatim>\<open>const orders = getSavedOrders(); orders.unshift(order); writeFileSync(stringify(orders))\<close>
\<close>

definition saveOrderToFile :: "json \<Rightarrow> orders_file \<Rightarrow> js_error + orders_file" where
  "saveOrderToFile order f =
     (case unshift order (getSavedOrders f) of
        Inl e \<Rightarrow> Inl e
      | Inr orders \<Rightarrow> Inr (Parsed orders))"

text \<open>
  \<^verbatim>\<open>saveOrderToFile\<close>, first revision: the read is inlined,
  \<^verbatim>\<open>let orders = []; if (existsSync) { try { orders = JSON.parse(...) } catch (e) { log } }\<close>
\<close>

definition saveOrderToFile_r1 :: "json \<Rightarrow> orders_file \<Rightarrow> js_error + orders_file" where
  "saveOrderToFile_r1 order f =
     (let orders = (case f of
                      Absent \<Rightarrow> JArr []
                    | Unparseable \<Rightarrow> JArr []
                    | Parsed j \<Rightarrow> j)
      in case unshift order orders of
           Inl e \<Rightarrow> Inl e
         | Inr orders' \<Rightarrow> Inr (Parsed orders'))"

text \<open>
  \<^verbatim>\<open>o.id\<close>: reading a property of \<^verbatim>\<open>null\<close> raises; an object gives the value stored
  under the key, if any; a number, string, boolean or array has no property \<^verbatim>\<open>id\<close>.
\<close>

fun get_id :: "json \<Rightarrow> js_error + json option" where
  "get_id JNull = Inl TypeError"
| "get_id (JObj kvs) = Inr (map_of kvs ''id'')"
| "get_id _ = Inr None"


text \<open>
  \<^verbatim>\<open>orders[index].status = status\<close> followed by \<^verbatim>\<open>JSON.stringify\<close>. The status is taken
  from the request body and is \<^verbatim>\<open>undefined\<close> (\<open>None\<close>) when the body has none; a property
  whose value is \<^verbatim>\<open>undefined\<close> is left out of the written text.
\<close>

fun set_status :: "json option \<Rightarrow> json \<Rightarrow> json" where
  "set_status (Some v) (JObj kvs) = JObj (AList.update ''status'' v kvs)"
| "set_status None (JObj kvs) = JObj (AList.delete ''status'' kvs)"
| "set_status _ j = j"


text \<open>A record with the given id, as \<^verbatim>\<open>findIndex\<close> looks for it.\<close>

fun has_id :: "string \<Rightarrow> json \<Rightarrow> bool" where
  "has_id orderId (JObj kvs) = (map_of kvs ''id'' = Some (JStr orderId))"
| "has_id orderId _ = False"


section \<open>Tool calls and the session relay (server.js)\<close>

text \<open>
  A function call of the model: \<^verbatim>\<open>fc.id\<close>, \<^verbatim>\<open>fc.name\<close>, \<^verbatim>\<open>fc.args\<close> (an object, or
  \<^verbatim>\<open>undefined\<close>). What the server sends back with \<^verbatim>\<open>sendToolResponse\<close> is the id, the
  name and \<^verbatim>\<open>response: { result }\<close>.
\<close>

record tool_call =
  fc_id :: string
  fc_name :: string
  fc_args :: "(string \<times> json) list option"

record tool_response =
  resp_id :: string
  resp_name :: string
  resp_result :: json

text \<open>Messages the server sends: to the telephony socket (\<^verbatim>\<open>ws.send\<close>) and to the model.\<close>

datatype twilio_out =
    MediaOut string "8 word list"
  | ClearOut string

datatype model_out =
    RealtimeText string
  | RealtimeAudio "16 word list"
  | ToolResponse tool_response

text \<open>
  The Live session as the server sees it: not requested yet, requested (the promise
  \<^verbatim>\<open>geminiSession\<close> is set), or ended.
\<close>

datatype live_state = NoSession | Live | Ended

text \<open>
  The state of one connection: the closure variables \<^verbatim>\<open>streamSid\<close>, \<^verbatim>\<open>geminiSession\<close>,
  \<^verbatim>\<open>isSessionOpen\<close>, \<^verbatim>\<open>callerId\<close>; whether the telephony socket is open; the state of
  the Live session; what has been sent to either side, oldest first; the store file.
\<close>

record relay =
  streamSid :: "string option"
  geminiSession :: bool
  isSessionOpen :: bool
  callerId :: string
  ws_open :: bool
  live :: live_state
  sent_twilio :: "twilio_out list"
  sent_model :: "model_out list"
  orders :: orders_file

text \<open>
  \<^verbatim>\<open>ws.send\<close> without a callback (package ws, version 8) drops the message when the socket
  has been closed.
\<close>

definition ws_send :: "twilio_out \<Rightarrow> relay \<Rightarrow> relay" where
  "ws_send m st = (if ws_open st then st\<lparr>sent_twilio := sent_twilio st @ [m]\<rparr> else st)"

text \<open>
  A handler that raises stops there; what it did before stays done, so a handler returns
  the state it reached together with the error, if any.
\<close>

type_synonym outcome = "relay \<times> js_error option"

definition and_then :: "outcome \<Rightarrow> (relay \<Rightarrow> outcome) \<Rightarrow> outcome" where
  "and_then r f = (case r of (st, None) \<Rightarrow> f st | (st, Some e) \<Rightarrow> (st, Some e))"

definition to_model :: "model_out \<Rightarrow> relay \<Rightarrow> relay" where
  "to_model m st = st\<lparr>sent_model := sent_model st @ [m]\<rparr>"

subsection \<open>Tool execution\<close>

text \<open>Decimal digits of \<^verbatim>\<open>Date.now()\<close>, for \<^verbatim>\<open>"ord_" + Date.now()\<close>.\<close>

function string_of_nat :: "nat \<Rightarrow> string" where
  "string_of_nat n =
     (if n < 10 then [''0123456789'' ! n]
      else string_of_nat (n div 10) @ [''0123456789'' ! (n mod 10)])"
  by pat_completeness auto
termination
  by (relation "measure id") auto

declare string_of_nat.simps [simp del]

text \<open>
  The keys of an object are kept in the order JavaScript lists them (and
  \<^verbatim>\<open>JSON.stringify\<close> writes them): first the keys that are array indices, in ascending
  numeric order, then the other keys in the order they were added. A key is an array
  index when it is the decimal numeral, without leading zeros, of a number below
  \<open>2\<^sup>3\<^sup>2 - 1\<close>.
\<close>

definition is_digit :: "char \<Rightarrow> bool" where
  "is_digit c \<longleftrightarrow> c \<in> set ''0123456789''"

definition digit_value :: "char \<Rightarrow> nat" where
  "digit_value c = length (takeWhile (\<lambda>d. d \<noteq> c) ''0123456789'')"

definition array_index :: "string \<Rightarrow> nat option" where
  "array_index k =
     (if k \<noteq> [] \<and> list_all is_digit k then
        let n = fold (\<lambda>c n. 10 * n + digit_value c) k 0
        in if string_of_nat n = k \<and> n < 4294967295 then Some n else None
      else None)"

text \<open>A new array index goes before the first key that is not a smaller array index.\<close>

fun insert_index :: "nat \<Rightarrow> string \<Rightarrow> json \<Rightarrow> (string \<times> json) list \<Rightarrow> (string \<times> json) list" where
  "insert_index n k v [] = [(k, v)]"
| "insert_index n k v (p # ps) =
     (case array_index (fst p) of
        Some m \<Rightarrow> if m < n then p # insert_index n k v ps else (k, v) # p # ps
      | None \<Rightarrow> (k, v) # p # ps)"

text \<open>
  Setting a property: a key the object has keeps its place and takes the new value; a new
  key is added, in its place among the array indices or at the end.
\<close>

definition obj_set :: "string \<Rightarrow> json \<Rightarrow> (string \<times> json) list \<Rightarrow> (string \<times> json) list" where
  "obj_set k v kvs =
     (if k \<in> set (map fst kvs) then AList.update k v kvs
      else case array_index k of
             None \<Rightarrow> kvs @ [(k, v)]
           | Some n \<Rightarrow> insert_index n k v kvs)"

text \<open>
  \<^verbatim>\<open>...fc.args\<close> sets the properties of the arguments one after the other, none when
  \<^verbatim>\<open>fc.args\<close> is \<^verbatim>\<open>undefined\<close>.
\<close>

definition spread :: "(string \<times> json) list option \<Rightarrow> (string \<times> json) list \<Rightarrow> (string \<times> json) list" where
  "spread args obj =
     (case args of
        None \<Rightarrow> obj
      | Some kvs \<Rightarrow> fold (\<lambda>(k, v). obj_set k v) kvs obj)"

text \<open>
  An object literal sets its keys from left to right. First revision:
  \<^verbatim>\<open>{ id: orderId, ...fc.args, created_at: new Date().toISOString() }\<close>;
  the second adds \<^verbatim>\<open>status: 'created'\<close>.
\<close>

definition newOrder_r1 :: "string \<Rightarrow> (string \<times> json) list option \<Rightarrow> string \<Rightarrow> json" where
  "newOrder_r1 orderId args stamp =
     JObj (obj_set ''created_at'' (JStr stamp) (spread args (obj_set ''id'' (JStr orderId) [])))"

definition newOrder :: "string \<Rightarrow> (string \<times> json) list option \<Rightarrow> string \<Rightarrow> json" where
  "newOrder orderId args stamp =
     JObj (obj_set ''status'' (JStr ''created'')
            (obj_set ''created_at'' (JStr stamp) (spread args (obj_set ''id'' (JStr orderId) []))))"


definition result_success :: json where
  "result_success = JObj [(''status'', JStr ''success'')]"

definition result_created :: "string \<Rightarrow> json" where
  "result_created orderId = JObj [(''status'', JStr ''created''), (''order_id'', JStr orderId)]"

definition respond :: "tool_call \<Rightarrow> json \<Rightarrow> relay \<Rightarrow> relay" where
  "respond fc result st =
     to_model (ToolResponse \<lparr>resp_id = fc_id fc, resp_name = fc_name fc, resp_result = result\<rparr>) st"

text \<open>
  The body of \<^verbatim>\<open>for (const fc of msg.toolCall.functionCalls)\<close>, second revision. The clock
  is read twice, by \<^verbatim>\<open>Date.now()\<close> and by \<^verbatim>\<open>new Date().toISOString()\<close>; the two readings
  are the parameters \<open>now\<close> and \<open>stamp\<close>.
\<close>

definition dispatch :: "nat \<times> string \<Rightarrow> tool_call \<Rightarrow> relay \<Rightarrow> outcome" where
  "dispatch clock fc st =
     (let (now, stamp) = clock
      in if fc_name fc = ''create_order'' then
           let orderId = ''ord_'' @ string_of_nat now;
               newOrder = newOrder orderId (fc_args fc) stamp
           in case saveOrderToFile newOrder (orders st) of
                Inl e \<Rightarrow> (st, Some e)
              | Inr f \<Rightarrow> (respond fc (result_created orderId) (st\<lparr>orders := f\<rparr>), None)
         else (respond fc result_success st, None))"

text \<open>
  First revision: the order has no status, and \<^verbatim>\<open>transfer_to_agent\<close> logs
  \<^verbatim>\<open>fc.args.reason\<close>, which raises when \<^verbatim>\<open>fc.args\<close> is \<^verbatim>\<open>undefined\<close>.
\<close>

definition dispatch_r1 :: "nat \<times> string \<Rightarrow> tool_call \<Rightarrow> relay \<Rightarrow> outcome" where
  "dispatch_r1 clock fc st =
     (let (now, stamp) = clock
      in if fc_name fc = ''create_order'' then
           let orderId = ''ord_'' @ string_of_nat now;
               newOrder = newOrder_r1 orderId (fc_args fc) stamp
           in case saveOrderToFile_r1 newOrder (orders st) of
                Inl e \<Rightarrow> (st, Some e)
              | Inr f \<Rightarrow> (respond fc (result_created orderId) (st\<lparr>orders := f\<rparr>), None)
         else if fc_name fc = ''transfer_to_agent'' then
           (case fc_args fc of
              None \<Rightarrow> (st, Some TypeError)
            | Some _ \<Rightarrow> (respond fc result_success st, None))
         else (respond fc result_success st, None))"

text \<open>The loop over the calls of one message; \<open>clock k\<close> is what the clock shows during call \<open>k\<close>.\<close>

fun tool_loop ::
  "(nat \<times> string \<Rightarrow> tool_call \<Rightarrow> relay \<Rightarrow> outcome) \<Rightarrow> (nat \<Rightarrow> nat \<times> string) \<Rightarrow> nat \<Rightarrow>
     tool_call list \<Rightarrow> relay \<Rightarrow> outcome" where
  "tool_loop body clock k [] st = (st, None)"
| "tool_loop body clock k (fc # fcs) st =
     and_then (body (clock k) fc st) (tool_loop body clock (Suc k) fcs)"

text \<open>A clock that shows the same reading during every call of a message.\<close>

definition frozen_clock :: "nat \<times> string \<Rightarrow> nat \<Rightarrow> nat \<times> string" where
  "frozen_clock reading k = reading"

subsection \<open>Messages from the model\<close>

text \<open>
  \<^verbatim>\<open>base64ToUint8\<close> returns a Node \<^verbatim>\<open>Buffer\<close>: a view, \<^verbatim>\<open>byteLength\<close> bytes long from
  \<^verbatim>\<open>byteOffset\<close> on, of an \<^verbatim>\<open>ArrayBuffer\<close>. Node places a chunk below 4 KB in its
  shared pool of 8 KB, so the \<^verbatim>\<open>ArrayBuffer\<close> can hold more than the chunk. Where the
  chunk lies and what else the \<^verbatim>\<open>ArrayBuffer\<close> holds is decided by the runtime and is
  part of what the handler receives.
\<close>

record node_buffer =
  backing :: "8 word list"
  byteOffset :: nat
  byteLength :: nat

text \<open>
  \<^verbatim>\<open>new Int16Array(arrayBuffer)\<close> views the whole \<^verbatim>\<open>ArrayBuffer\<close>, two bytes to a
  sample, low byte first, and raises a RangeError when the number of bytes is odd.
\<close>

fun int16_elements :: "8 word list \<Rightarrow> 16 word list" where
  "int16_elements (lo # hi # rest) = word_of_int (uint lo + 256 * uint hi) # int16_elements rest"
| "int16_elements _ = []"

definition new_Int16Array :: "8 word list \<Rightarrow> js_error + 16 word list" where
  "new_Int16Array arrayBuffer =
     (if even (length arrayBuffer) then Inr (int16_elements arrayBuffer) else Inl RangeError)"

text \<open>
  A server message: the \<^verbatim>\<open>Buffer\<close> that \<^verbatim>\<open>base64ToUint8\<close> returns for
  \<^verbatim>\<open>msg.serverContent?.modelTurn?.parts?.[0]?.inlineData?.data\<close>, if there is such data;
  \<^verbatim>\<open>msg.toolCall\<close>, if there is one, with its \<^verbatim>\<open>functionCalls\<close>, if it has them; the flag
  \<^verbatim>\<open>msg.serverContent?.interrupted\<close>. The three parts are handled by three
  independent \<^verbatim>\<open>if\<close> statements, in this order. A message goes to the telephony socket
  under \<^verbatim>\<open>if (streamSid)\<close>, which fails for \<^verbatim>\<open>null\<close> and for the empty string.
  The resampler is taken from audio-utils.js as it stands (gain 2.5); nothing proved
  about the relay depends on which form it is.
\<close>

record server_message =
  audio :: "node_buffer option"
  toolCall :: "tool_call list option option"
  interrupted :: bool

text \<open>
  \<^verbatim>\<open>const pcm24k = new Int16Array(base64ToUint8(base64Pcm24k).buffer)\<close> and the three
  lines after it are run before \<^verbatim>\<open>streamSid\<close> is looked at.
\<close>

definition audio_part :: "server_message \<Rightarrow> relay \<Rightarrow> outcome" where
  "audio_part msg st =
     (case audio msg of
        None \<Rightarrow> (st, None)
      | Some base64Pcm24k \<Rightarrow>
          (case new_Int16Array (backing base64Pcm24k) of
             Inl e \<Rightarrow> (st, Some e)
           | Inr pcm24k \<Rightarrow>
               let pcm8k = downsample24kTo8k_gain25 pcm24k;
                   ulaw = encodeUlaw pcm8k
               in ((case streamSid st of
                      None \<Rightarrow> st
                    | Some sid \<Rightarrow> if sid = [] then st else ws_send (MediaOut sid ulaw) st),
                   None)))"

text \<open>\<^verbatim>\<open>for (const fc of msg.toolCall.functionCalls)\<close> raises when there is nothing to iterate.\<close>

definition tool_part ::
  "(nat \<times> string \<Rightarrow> tool_call \<Rightarrow> relay \<Rightarrow> outcome) \<Rightarrow> (nat \<Rightarrow> nat \<times> string) \<Rightarrow>
     server_message \<Rightarrow> relay \<Rightarrow> outcome" where
  "tool_part body clock msg st =
     (case toolCall msg of
        None \<Rightarrow> (st, None)
      | Some None \<Rightarrow> (st, Some TypeError)
      | Some (Some fcs) \<Rightarrow> tool_loop body clock 0 fcs st)"

definition interrupted_part :: "server_message \<Rightarrow> relay \<Rightarrow> relay" where
  "interrupted_part msg st =
     (if interrupted msg then
        (case streamSid st of
           None \<Rightarrow> st
         | Some sid \<Rightarrow> if sid = [] then st else ws_send (ClearOut sid) st)
      else st)"

text \<open>What the audio part of a message sends to the telephony socket of a stream \<open>sid\<close>.\<close>

definition media_of :: "server_message \<Rightarrow> string \<Rightarrow> twilio_out list" where
  "media_of msg sid =
     (case audio msg of
        None \<Rightarrow> []
      | Some base64Pcm24k \<Rightarrow>
          (case new_Int16Array (backing base64Pcm24k) of
             Inl e \<Rightarrow> []
           | Inr pcm24k \<Rightarrow> [MediaOut sid (encodeUlaw (downsample24kTo8k_gain25 pcm24k))]))"

definition onmessage :: "(nat \<Rightarrow> nat \<times> string) \<Rightarrow> server_message \<Rightarrow> relay \<Rightarrow> outcome" where
  "onmessage clock msg st =
     and_then (audio_part msg st)
       (\<lambda>st. and_then (tool_part dispatch clock msg st)
               (\<lambda>st. (interrupted_part msg st, None)))"

definition onmessage_r1 :: "(nat \<Rightarrow> nat \<times> string) \<Rightarrow> server_message \<Rightarrow> relay \<Rightarrow> outcome" where
  "onmessage_r1 clock msg st =
     and_then (audio_part msg st)
       (\<lambda>st. and_then (tool_part dispatch_r1 clock msg st)
               (\<lambda>st. (interrupted_part msg st, None)))"

subsection \<open>Opening and closing\<close>

text \<open>
  \<^verbatim>\<open>onopen\<close> and \<^verbatim>\<open>onclose\<close> of the second revision, then of the first, whose \<^verbatim>\<open>onopen\<close>
  also sends a greeting prompt and whose \<^verbatim>\<open>onclose\<close> also calls \<^verbatim>\<open>ws.close()\<close>.
\<close>

definition onopen :: "relay \<Rightarrow> relay" where
  "onopen st = st\<lparr>isSessionOpen := True\<rparr>"

definition onclose :: "relay \<Rightarrow> relay" where
  "onclose st = st\<lparr>isSessionOpen := False\<rparr>"

definition onopen_r1 :: "relay \<Rightarrow> relay" where
  "onopen_r1 st =
     to_model (RealtimeText ''Say 'Hello! How can I help you order today?' '')
       (st\<lparr>isSessionOpen := True\<rparr>)"

definition onclose_r1 :: "relay \<Rightarrow> relay" where
  "onclose_r1 st = st\<lparr>isSessionOpen := False, ws_open := False\<rparr>"

text \<open>
  \<^verbatim>\<open>s.close()\<close> on the Live session ends it, and the library then calls the \<^verbatim>\<open>onclose\<close>
  callback it was given.
\<close>

definition close_session :: "(relay \<Rightarrow> relay) \<Rightarrow> relay \<Rightarrow> relay" where
  "close_session onclose_cb st = onclose_cb (st\<lparr>live := Ended\<rparr>)"

subsection \<open>Messages from the telephony socket\<close>

datatype twilio_event =
    Start string "string option"
  | Media "8 word list"
  | Stop
  | Other

definition forward_audio :: "8 word list \<Rightarrow> relay \<Rightarrow> relay" where
  "forward_audio payload st =
     (let pcm8k = decodeUlaw payload;
          pcm16k = upsample8kTo16k pcm8k
      in to_model (RealtimeAudio pcm16k) st)"

text \<open>
  Second revision: the Live session is requested when \<^verbatim>\<open>start\<close> arrives
  (\<^verbatim>\<open>startGeminiSession\<close>); a caller parameter that is missing or empty gives "Unknown".
\<close>

definition startGeminiSession :: "relay \<Rightarrow> relay" where
  "startGeminiSession st = st\<lparr>geminiSession := True, live := Live\<rparr>"

definition on_ws_message :: "twilio_event \<Rightarrow> relay \<Rightarrow> relay" where
  "on_ws_message ev st =
     (case ev of
        Start sid caller \<Rightarrow>
          startGeminiSession
            (st\<lparr>streamSid := Some sid,
                callerId := (case caller of
                               None \<Rightarrow> ''Unknown''
                             | Some c \<Rightarrow> if c = [] then ''Unknown'' else c)\<rparr>)
      | Media payload \<Rightarrow>
          if isSessionOpen st \<and> geminiSession st then forward_audio payload st else st
      | Stop \<Rightarrow> if geminiSession st then close_session onclose st else st
      | Other \<Rightarrow> st)"

text \<open>
  First revision: the Live session is requested when the socket connects, so
  \<^verbatim>\<open>geminiSession\<close> is set from the beginning, and \<^verbatim>\<open>stop\<close> closes it unconditionally.
\<close>

definition on_ws_message_r1 :: "twilio_event \<Rightarrow> relay \<Rightarrow> relay" where
  "on_ws_message_r1 ev st =
     (case ev of
        Start sid caller \<Rightarrow> st\<lparr>streamSid := Some sid\<rparr>
      | Media payload \<Rightarrow>
          if isSessionOpen st \<and> geminiSession st then forward_audio payload st else st
      | Stop \<Rightarrow> close_session onclose_r1 st
      | Other \<Rightarrow> st)"

text \<open>The state when the telephony socket has connected, for either revision.\<close>

definition on_connection :: "orders_file \<Rightarrow> relay" where
  "on_connection f =
     \<lparr>streamSid = None, geminiSession = False, isSessionOpen = False, callerId = ''Unknown'',
      ws_open = True, live = NoSession, sent_twilio = [], sent_model = [], orders = f\<rparr>"

definition on_connection_r1 :: "orders_file \<Rightarrow> relay" where
  "on_connection_r1 f = (on_connection f)\<lparr>geminiSession := True, live := Live\<rparr>"

text \<open>
  What happens to a connection: a message from the telephony socket, or a callback of the
  Live session. The session ending on its own (the remote side closes it, or the network
  fails) is \<open>ModelClose\<close>.
\<close>

datatype event =
    Twilio twilio_event
  | ModelOpen
  | ModelMessage "nat \<Rightarrow> nat \<times> string" server_message
  | ModelClose

fun step :: "event \<Rightarrow> relay \<Rightarrow> relay" where
  "step (Twilio ev) st = on_ws_message ev st"
| "step ModelOpen st = onopen st"
| "step (ModelMessage clock msg) st = fst (onmessage clock msg st)"
| "step ModelClose st = close_session onclose st"

fun step_r1 :: "event \<Rightarrow> relay \<Rightarrow> relay" where
  "step_r1 (Twilio ev) st = on_ws_message_r1 ev st"
| "step_r1 ModelOpen st = onopen_r1 st"
| "step_r1 (ModelMessage clock msg) st = fst (onmessage_r1 clock msg st)"
| "step_r1 ModelClose st = close_session onclose_r1 st"

definition run :: "event list \<Rightarrow> relay \<Rightarrow> relay" where
  "run evs st = fold step evs st"

definition run_r1 :: "event list \<Rightarrow> relay \<Rightarrow> relay" where
  "run_r1 evs st = fold step_r1 evs st"

text \<open>
  Both sides active: the stream has started (under a stream id that is not empty), the
  telephony socket is open and the Live session has opened.
\<close>

definition streaming :: "relay \<Rightarrow> bool" where
  "streaming st \<longleftrightarrow>
     (case streamSid st of None \<Rightarrow> False | Some sid \<Rightarrow> sid \<noteq> [])
     \<and> ws_open st \<and> isSessionOpen st"

chapter \<open>Properties\<close>

section \<open>Properties of the order store\<close>

lemma saveOrderToFile_r1_eq: "saveOrderToFile_r1 order f = saveOrderToFile order f"
  by (cases f) (simp_all add: saveOrderToFile_r1_def saveOrderToFile_def)

lemma saveOrderToFile_Inr:
  "saveOrderToFile order f = Inr f' \<longleftrightarrow>
     (\<exists>os. getSavedOrders f = JArr os \<and> f' = Parsed (JArr (order # os)))"
  by (cases "getSavedOrders f") (auto simp: saveOrderToFile_def)

text \<open>
  C10. When the store file exists but does not parse, \<^verbatim>\<open>getSavedOrders\<close> returns the
  empty list and the next \<^verbatim>\<open>saveOrderToFile\<close> (either revision) overwrites the file with
  the list holding only the new order, so whatever the file held is gone. A save that
  succeeds puts the new order in front: reading afterwards returns the new order first,
  followed by the orders read before.
\<close>

theorem unparseable_store_is_overwritten:
  "getSavedOrders Unparseable = JArr []
   \<and> saveOrderToFile order Unparseable = Inr (Parsed (JArr [order]))
   \<and> saveOrderToFile_r1 order Unparseable = Inr (Parsed (JArr [order]))
   \<and> (\<forall>f f'. saveOrderToFile order f = Inr f' \<or> saveOrderToFile_r1 order f = Inr f' \<longrightarrow>
         (\<exists>os. getSavedOrders f = JArr os \<and> getSavedOrders f' = JArr (order # os)))"
  by (auto simp: saveOrderToFile_r1_eq saveOrderToFile_Inr)

theorem unparseable_store_is_overwritten_witness:
  "saveOrderToFile (JStr ''new'') (Parsed (JArr [JStr ''old''])) = Inr (Parsed (JArr [JStr ''new'', JStr ''old'']))
   \<and> (\<exists>os. getSavedOrders (Parsed (JArr [JStr ''old''])) = JArr os
         \<and> getSavedOrders (Parsed (JArr [JStr ''new'', JStr ''old''])) = JArr (JStr ''new'' # os))"
proof -
  have s: "saveOrderToFile (JStr ''new'') (Parsed (JArr [JStr ''old'']))
           = Inr (Parsed (JArr [JStr ''new'', JStr ''old'']))"
    by (simp add: saveOrderToFile_def)
  with unparseable_store_is_overwritten [of "JStr ''new''"] show ?thesis by blast
qed

subsection \<open>Status update\<close>





lemma has_id_set_status [simp]: "has_id oid (set_status s x) = has_id oid x"
  by (cases x; cases s) (simp_all add: update_conv' delete_conv')

lemma get_id_set_status [simp]: "get_id (set_status s x) = get_id x"
  by (cases x; cases s) (simp_all add: update_conv' delete_conv')

lemma update_twice: "AList.update k v (AList.update k v al) = AList.update k v al"
  by (induction al) auto

lemma set_status_idem [simp]: "set_status s (set_status s x) = set_status s x"
  by (cases x; cases s) (simp_all add: update_twice delete_idem)





section \<open>Loops that fill an array\<close>

lemma fold_length_preserved:
  "(\<And>i r. length (body i r) = length r) \<Longrightarrow> length (fold body js r) = length r"
  by (induction js arbitrary: r) simp_all

lemma fold_update_length [simp]:
  "length (fold (\<lambda>i r. r[g i := f i]) js r) = length r"
  by (rule fold_length_preserved) simp

lemma fold_update_nth:
  "k < length r \<Longrightarrow>
   fold (\<lambda>i r. r[i := f i]) [a..<b] r ! k = (if a \<le> k \<and> k < b then f k else r ! k)"
proof (induction b)
  case 0
  then show ?case by simp
next
  case (Suc b)
  show ?case
  proof (cases "a \<le> b")
    case True
    then have "[a..<Suc b] = [a..<b] @ [b]" by simp
    with Suc True show ?thesis
      by (cases "k = b") (simp_all add: nth_list_update)
  next
    case False
    then show ?thesis by auto
  qed
qed

lemma fold_update_upto_nth:
  assumes "k < length r" and "0 \<le> a + c"
  shows "fold (\<lambda>i r. r[nat (i + c) := f i]) [a..b] r ! k =
         (if a \<le> int k - c \<and> int k - c \<le> b then f (int k - c) else r ! k)"
proof (cases "a \<le> b")
  case False
  then show ?thesis by auto
next
  case True
  then show ?thesis
  proof (induction b rule: int_ge_induct)
    case base
    with assms show ?case by (auto simp: nth_list_update nat_eq_iff)
  next
    case (step b)
    have "[a..b + 1] = [a..b] @ [b + 1]"
      using step.hyps by (simp add: upto_rec2)
    moreover have "nat (b + 1 + c) = k \<longleftrightarrow> int k - c = b + 1"
      using step.hyps assms by auto
    ultimately show ?case
      using step assms by (cases "int k - c = b + 1") (simp_all add: nth_list_update)
  qed
qed

text \<open>A loop that stores \<open>f i\<close> at every index \<open>i\<close> builds the list of the \<open>f i\<close>.\<close>

lemma fold_update_map:
  "fold (\<lambda>i r. r[i := f i]) [0..<n] (replicate n z) = map f [0..<n]"
  by (rule nth_equalityI) (simp_all add: fold_update_nth)

section \<open>Properties of the codec\<close>

lemma ulawToLinear_nth: "k < 256 \<Longrightarrow> ulawToLinear ! k = ulawToLinear_at k"
  unfolding ulawToLinear_def by (subst fold_update_nth) simp_all

lemma linearToUlaw_nth:
  "k < 65536 \<Longrightarrow> linearToUlaw ! k = linearToUlaw_at (int k - 32768)"
  unfolding linearToUlaw_def by (subst fold_update_upto_nth) simp_all

lemma decodeUlaw_eq: "decodeUlaw buffer = map (\<lambda>b. ulawToLinear_at (unat b)) buffer"
proof (rule nth_equalityI)
  show "length (decodeUlaw buffer) = length (map (\<lambda>b. ulawToLinear_at (unat b)) buffer)"
    by (simp add: decodeUlaw_def Let_def)
next
  fix i assume "i < length (decodeUlaw buffer)"
  then have i: "i < length buffer" by (simp add: decodeUlaw_def Let_def)
  have "unat (buffer ! i) < 256"
    using unsigned_less [of "buffer ! i"] by simp
  with i show "decodeUlaw buffer ! i = map (\<lambda>b. ulawToLinear_at (unat b)) buffer ! i"
    by (simp add: decodeUlaw_def Let_def fold_update_nth ulawToLinear_nth)
qed

lemma encodeUlaw_eq: "encodeUlaw buffer = map (\<lambda>s. linearToUlaw_at (sint s)) buffer"
proof (rule nth_equalityI)
  show "length (encodeUlaw buffer) = length (map (\<lambda>s. linearToUlaw_at (sint s)) buffer)"
    by (simp add: encodeUlaw_def Let_def)
next
  fix i assume "i < length (encodeUlaw buffer)"
  then have i: "i < length buffer" by (simp add: encodeUlaw_def Let_def)
  have "- 32768 \<le> sint (buffer ! i)" "sint (buffer ! i) < 32768"
    using sint_ge [of "buffer ! i"] sint_lt [of "buffer ! i"] by simp_all
  then have "nat (sint (buffer ! i) + 32768) < 65536"
    and "int (nat (sint (buffer ! i) + 32768)) - 32768 = sint (buffer ! i)"
    by simp_all
  with i show "encodeUlaw buffer ! i = map (\<lambda>s. linearToUlaw_at (sint s)) buffer ! i"
    by (simp add: encodeUlaw_def Let_def fold_update_nth linearToUlaw_nth)
qed

lemmas codec_consts = BIAS_def CLIP_def SEG_MASK_def SEG_SHIFT_def SIGN_BIT_def

text \<open>
  The decode table is the G.711 one: code 0xFF is 0, code 0x7F is -0, the largest
  magnitude is 32124.
\<close>

lemma ulawToLinear_ends:
  "sint (ulawToLinear_at 0xFF) = 0" "sint (ulawToLinear_at 0x7F) = 0"
  "sint (ulawToLinear_at 0x80) = 32124" "sint (ulawToLinear_at 0) = - 32124"
  by code_simp+

text \<open>
  The encoder adds the bias 132 to a magnitude clipped at 8159 and then looks for the
  segment among the thresholds 31 ... 2047, so the exponent is never below 3 and the
  mantissa is taken from the wrong bits.
\<close>

lemma exponent_at_least_3: "BIAS \<le> sample \<Longrightarrow> 3 \<le> exponent_of sample"
  by (simp add: exponent_of_def codec_consts)

text \<open>
  C1. Encoding a sample and decoding the code should give the sample back within the
  quantisation error of the companding law. It does not: silence (0) comes back as 1052,
  1000 as 9340, and full scale (32767) as 24956.
\<close>

theorem ulaw_roundtrip_far_off:
  "map sint (decodeUlaw (encodeUlaw [0, 1, - 1, 1000, 32767, - 32768]))
     = [1052, 1052, - 1052, 9340, 24956, - 24956]"
  by (simp add: decodeUlaw_eq encodeUlaw_eq linearToUlaw_at_def ulawToLinear_at_def
      exponent_of_def codec_consts)

section \<open>Properties of double arithmetic\<close>

lemma bit_length_bounds:
  "0 < n \<Longrightarrow> 0 < bit_length n \<and> 2 ^ nat (bit_length n - 1) \<le> n \<and> n < 2 ^ nat (bit_length n)"
proof (induction n rule: bit_length.induct)
  case (1 n)
  show ?case
  proof (cases "n = 1")
    case True
    then show ?thesis by (simp add: bit_length.simps [of 1] bit_length.simps [of 0])
  next
    case False
    with 1 have h: "0 < n div 2" by simp
    with 1 have IH: "0 < bit_length (n div 2)"
      "2 ^ nat (bit_length (n div 2) - 1) \<le> n div 2"
      "n div 2 < 2 ^ nat (bit_length (n div 2))" by simp_all
    have bl: "bit_length n = bit_length (n div 2) + 1"
      using 1(2) by (simp add: bit_length.simps [of n])
    have e1: "nat (bit_length n - 1) = Suc (nat (bit_length (n div 2) - 1))"
      using IH(1) bl by simp
    have e2: "nat (bit_length n) = Suc (nat (bit_length (n div 2)))"
      using IH(1) bl by simp
    have "2 * (n div 2) \<le> n" "n < 2 * (n div 2) + 2" by presburger+
    with IH show ?thesis unfolding e1 e2 by (simp add: bl)
  qed
qed

text \<open>\<open>ilog2\<close> is the binary exponent: \<open>2\<^sup>e \<le> q < 2\<^sup>e\<^sup>+\<^sup>1\<close>.\<close>

lemma ilog2_bounds:
  assumes "0 < q"
  shows "2 powi (ilog2 q) \<le> q" and "q < 2 powi (ilog2 q + 1)"
proof -
  obtain a b where ab: "quotient_of q = (a, b)" by (cases "quotient_of q")
  then have b: "0 < b" and q: "q = of_int a / of_int b"
    by (simp_all add: quotient_of_denom_pos quotient_of_div)
  with assms have a: "0 < a" by (simp add: zero_less_divide_iff)
  define la lb where "la = bit_length a" and "lb = bit_length b"
  define d where "d = la - lb"
  have A: "0 < la" "2 ^ nat (la - 1) \<le> a" "a < 2 ^ nat la"
    using bit_length_bounds [OF a] by (simp_all add: la_def)
  have B: "0 < lb" "2 ^ nat (lb - 1) \<le> b" "b < 2 ^ nat lb"
    using bit_length_bounds [OF b] by (simp_all add: lb_def)
  have pw: "(2::rat) powi k = 2 ^ nat k" if "0 \<le> k" for k
    using that by (simp add: power_int_def)
  have A': "2 powi (la - 1) \<le> (of_int a :: rat)" "(of_int a :: rat) < 2 powi la"
  proof -
    have "(of_int (2 ^ nat (la - 1)) :: rat) \<le> of_int a"
      using A(2) by (simp only: of_int_le_iff)
    then show "2 powi (la - 1) \<le> (of_int a :: rat)" using A(1) by (simp add: pw)
    have "(of_int a :: rat) < of_int (2 ^ nat la)"
      using A(3) by (simp only: of_int_less_iff)
    then show "(of_int a :: rat) < 2 powi la" using A(1) by (simp add: pw)
  qed
  have B': "2 powi (lb - 1) \<le> (of_int b :: rat)" "(of_int b :: rat) < 2 powi lb"
  proof -
    have "(of_int (2 ^ nat (lb - 1)) :: rat) \<le> of_int b"
      using B(2) by (simp only: of_int_le_iff)
    then show "2 powi (lb - 1) \<le> (of_int b :: rat)" using B(1) by (simp add: pw)
    have "(of_int b :: rat) < of_int (2 ^ nat lb)"
      using B(3) by (simp only: of_int_less_iff)
    then show "(of_int b :: rat) < 2 powi lb" using B(1) by (simp add: pw)
  qed
  have bpos: "(0::rat) < of_int b" using b by simp
  have lo: "2 powi (d - 1) \<le> q"
  proof -
    have "(2::rat) powi (d - 1) * of_int b \<le> 2 powi (d - 1) * 2 powi lb"
      using B'(2) by (simp add: zero_less_power_int)
    also have "\<dots> = 2 powi (la - 1)"
      by (simp add: d_def flip: power_int_add)
    also have "\<dots> \<le> of_int a" by (rule A')
    finally show ?thesis using bpos by (simp add: q pos_le_divide_eq)
  qed
  have hi: "q < 2 powi (d + 1)"
  proof -
    have "(of_int a :: rat) < 2 powi la" by (rule A')
    also have "\<dots> = 2 powi (d + 1) * 2 powi (lb - 1)"
      by (simp add: d_def flip: power_int_add)
    also have "\<dots> \<le> 2 powi (d + 1) * of_int b"
      using B'(1) by (simp add: zero_less_power_int)
    finally show ?thesis using bpos by (simp add: q pos_divide_less_eq)
  qed
  have il: "ilog2 q = (if 2 powi d \<le> q then d else d - 1)"
    by (simp add: ilog2_def ab d_def la_def lb_def)
  show "2 powi (ilog2 q) \<le> q" using lo by (simp add: il)
  show "q < 2 powi (ilog2 q + 1)" using hi by (auto simp: il not_le)
qed

lemma round_even_near: "\<bar>of_int (round_even m) - m\<bar> \<le> 1 / 2"
proof -
  have "of_int \<lfloor>m\<rfloor> \<le> m" "m < of_int \<lfloor>m\<rfloor> + 1" by linarith+
  then show ?thesis by (auto simp: round_even_def Let_def)
qed

lemma round_even_of_int [simp]: "round_even (of_int k) = k"
  by (simp add: round_even_def)

lemma fl_0 [simp]: "fl 0 = 0"
  by (simp add: fl_def)

text \<open>The relative error of one rounding is at most \<open>2\<^sup>-\<^sup>5\<^sup>3\<close>.\<close>

lemma fl_error: "\<bar>fl x - x\<bar> \<le> \<bar>x\<bar> / 2 ^ 53"
proof (cases "x = 0")
  case True
  then show ?thesis by simp
next
  case False
  define e where "e = ilog2 \<bar>x\<bar> - 52"
  define P :: rat where "P = 2 powi e"
  define m where "m = \<bar>x\<bar> / P"
  have P: "0 < P" by (simp add: P_def zero_less_power_int)
  have flx: "fl x = sgn x * of_int (round_even m) * P"
    using False by (simp add: fl_def Let_def e_def P_def m_def)
  have x: "x = sgn x * m * P"
    using P by (simp add: m_def mult_sgn_abs)
  have "fl x - x = sgn x * (of_int (round_even m) - m) * P"
    by (subst (2) x) (simp add: flx algebra_simps)
  then have "\<bar>fl x - x\<bar> = \<bar>of_int (round_even m) - m\<bar> * P"
    using False P by (simp add: abs_mult abs_sgn_eq)
  also have "\<dots> \<le> (1 / 2) * P"
    using round_even_near [of m] P by (intro mult_right_mono) simp_all
  also have "P = 2 powi (ilog2 \<bar>x\<bar>) / 2 ^ 52"
    by (simp add: P_def e_def power_int_diff)
  also have "(1 / 2) * (2 powi (ilog2 \<bar>x\<bar>) / 2 ^ 52) \<le> (1 / 2) * (\<bar>x\<bar> / 2 ^ 52)"
    using ilog2_bounds(1) [of "\<bar>x\<bar>"] False by (simp add: divide_right_mono)
  finally show ?thesis by simp
qed

text \<open>A number with at most 53 significant bits is not changed by rounding.\<close>

lemma fl_dyadic:
  assumes "\<bar>k\<bar> < 2 ^ 53"
  shows "fl (of_int k / 2 ^ j) = of_int k / 2 ^ j"
proof (cases "k = 0")
  case True
  then show ?thesis by simp
next
  case False
  define x :: rat where "x = of_int k / 2 ^ j"
  have x0: "x \<noteq> 0" using False by (simp add: x_def)
  define e where "e = ilog2 \<bar>x\<bar> - 52"
  define P :: rat where "P = 2 powi e"
  define m where "m = \<bar>x\<bar> / P"
  have P: "0 < P" by (simp add: P_def zero_less_power_int)
  have absx: "\<bar>x\<bar> = of_int \<bar>k\<bar> * 2 powi (- int j)"
    by (simp add: x_def power_int_minus field_simps)
  have "(of_int \<bar>k\<bar> :: rat) < of_int (2 ^ 53)"
    using assms by (simp only: of_int_less_iff)
  then have "\<bar>x\<bar> < 2 powi 53 * 2 powi (- int j)"
    unfolding absx by (simp add: zero_less_power_int)
  also have "\<dots> = 2 powi (53 - int j)"
    using power_int_add [of "2::rat" 53 "- int j"] by (simp del: power_int_numeral)
  finally have "2 powi (ilog2 \<bar>x\<bar>) < (2::rat) powi (53 - int j)"
    using ilog2_bounds(1) [of "\<bar>x\<bar>"] x0 by simp
  then have "ilog2 \<bar>x\<bar> < 53 - int j"
    by (meson linorder_not_le one_le_numeral power_int_increasing)
  then have ej: "0 \<le> - int j - e" by (simp add: e_def)
  have "m = of_int \<bar>k\<bar> * (2 powi (- int j) / 2 powi e)"
    by (simp add: m_def absx P_def)
  also have "2 powi (- int j) / 2 powi e = (2::rat) powi (- int j - e)"
    by (simp add: power_int_diff)
  also have "\<dots> = of_int (2 ^ nat (- int j - e))"
    using ej by (simp add: power_int_def)
  finally have "m = of_int (\<bar>k\<bar> * 2 ^ nat (- int j - e))" by simp
  then have "of_int (round_even m) = m"
    by (simp only: round_even_of_int)
  then have "fl x = sgn x * m * P"
    using x0 by (simp add: fl_def Let_def e_def P_def m_def)
  also have "\<dots> = x"
    using P by (simp add: m_def mult_sgn_abs)
  finally show ?thesis by (simp add: x_def)
qed

lemma fl_eighths:
  assumes "8 * q \<in> \<int>" and "\<bar>q\<bar> \<le> 2 ^ 40"
  shows "fl q = q"
proof -
  from assms(1) obtain k where k: "8 * q = of_int k" by (auto elim: Ints_cases)
  then have q: "q = of_int k / 2 ^ 3" by simp
  have "\<bar>(of_int k :: rat)\<bar> \<le> 2 ^ 43" using assms(2) k [symmetric] by (simp add: abs_mult)
  then have "(of_int \<bar>k\<bar> :: rat) \<le> of_int (2 ^ 43)" by simp
  then have "\<bar>k\<bar> \<le> 2 ^ 43" by (simp only: of_int_le_iff)
  then have "\<bar>k\<bar> < 2 ^ 53" by simp
  then show ?thesis unfolding q by (rule fl_dyadic)
qed

lemma fl_of_int: "\<bar>k\<bar> < 2 ^ 53 \<Longrightarrow> fl (of_int k) = of_int k"
  using fl_dyadic [of k 0] by simp

text \<open>One-sided bounds that survive a rounding.\<close>

lemma fl_le:
  assumes "x \<le> X" and "0 \<le> X"
  shows "fl x \<le> X * (1 + 1 / 2 ^ 53)"
proof -
  have "fl x \<le> x + \<bar>x\<bar> / 2 ^ 53" using fl_error [of x] by linarith
  also have "\<dots> \<le> X * (1 + 1 / 2 ^ 53)"
  proof (cases "0 \<le> x")
    case True
    then have "x + \<bar>x\<bar> / 2 ^ 53 = x * (1 + 1 / 2 ^ 53)" by (simp add: algebra_simps)
    also have "\<dots> \<le> X * (1 + 1 / 2 ^ 53)" using assms(1) by (intro mult_right_mono) simp_all
    finally show ?thesis .
  next
    case False
    then have "x + \<bar>x\<bar> / 2 ^ 53 = x * (1 - 1 / 2 ^ 53)" by (simp add: algebra_simps)
    also have "\<dots> \<le> 0" using False by (intro mult_nonpos_nonneg) simp_all
    also have "\<dots> \<le> X * (1 + 1 / 2 ^ 53)" using assms(2) by simp
    finally show ?thesis .
  qed
  finally show ?thesis .
qed

lemma fl_ge:
  assumes "- X \<le> x" and "0 \<le> X"
  shows "- (X * (1 + 1 / 2 ^ 53)) \<le> fl x"
proof -
  have "x - \<bar>x\<bar> / 2 ^ 53 \<le> fl x" using fl_error [of x] by linarith
  moreover have "- (X * (1 + 1 / 2 ^ 53)) \<le> x - \<bar>x\<bar> / 2 ^ 53"
  proof (cases "0 \<le> x")
    case True
    then have "x - \<bar>x\<bar> / 2 ^ 53 = x * (1 - 1 / 2 ^ 53)" by (simp add: algebra_simps)
    moreover have "0 \<le> x * (1 - 1 / 2 ^ 53)" using True by (intro mult_nonneg_nonneg) simp_all
    moreover have "- (X * (1 + 1 / 2 ^ 53)) \<le> 0" using assms(2) by simp
    ultimately show ?thesis by linarith
  next
    case False
    then have "x - \<bar>x\<bar> / 2 ^ 53 = x * (1 + 1 / 2 ^ 53)" by (simp add: algebra_simps)
    moreover have "(- X) * (1 + 1 / 2 ^ 53) \<le> x * (1 + 1 / 2 ^ 53)"
      using assms(1) by (intro mult_right_mono) simp_all
    ultimately show ?thesis by simp
  qed
  ultimately show ?thesis by linarith
qed

text \<open>
  \<^verbatim>\<open>Math.floor(len / 3)\<close>, computed in doubles, is the integer quotient for every length
  an array can have.
\<close>

lemma floor_third:
  assumes "n < 2 ^ 32"
  shows "\<lfloor>js_div (of_nat n) 3\<rfloor> = int (n div 3)"
proof -
  define x :: rat where "x = of_nat n / 3"
  define q where "q = n div 3"
  define r where "r = n mod 3"
  have n: "n = 3 * q + r" and r: "r < 3" by (simp_all add: q_def r_def)
  have xq: "x = of_nat q + of_nat r / 3" by (simp add: x_def n add_divide_distrib)
  show ?thesis
  proof (cases "r = 0")
    case True
    then have "x = of_int (int q)" by (simp add: xq)
    moreover have "\<bar>int q\<bar> < 2 ^ 53" using assms by (simp add: q_def)
    ultimately have "fl x = of_int (int q)" using fl_of_int [of "int q"] by simp
    then show ?thesis by (simp add: js_div_def x_def q_def)
  next
    case False
    with r have r12: "1 \<le> r" "r \<le> 2" by simp_all
    have lo: "of_nat q + 1 / 3 \<le> x"
      using r12(1) by (simp add: xq divide_right_mono)
    have hi: "x \<le> of_nat q + 2 / 3"
    proof -
      have "(of_nat r :: rat) \<le> 2" using r12(2) by (metis of_nat_le_iff of_nat_numeral)
      then show ?thesis by (simp add: xq divide_right_mono)
    qed
    have "(of_nat n :: rat) < 2 ^ 32"
      using assms by (metis of_nat_less_iff of_nat_numeral of_nat_power)
    then have "\<bar>x\<bar> < 2 ^ 32" by (simp add: x_def)
    then have "\<bar>x\<bar> / 2 ^ 53 < 2 ^ 32 / 2 ^ 53" by (simp add: divide_strict_right_mono)
    also have "\<dots> < (1 / 3 :: rat)" by simp
    finally have "\<bar>fl x - x\<bar> < 1 / 3" using fl_error [of x] by linarith
    with lo hi have "of_nat q \<le> fl x" "fl x < of_nat q + 1" by linarith+
    then have "of_int (int q) \<le> fl x" "fl x < of_int (int q) + 1" by simp_all
    then have "\<lfloor>fl x\<rfloor> = int q" by (simp add: floor_unique)
    then show ?thesis by (simp add: js_div_def x_def q_def)
  qed
qed

section \<open>Properties of typed arrays\<close>

declare of_int_sint [simp del]

lemma int16_range: "- 32768 \<le> sint (w :: 16 word)" "sint (w :: 16 word) \<le> 32767"
  using sint_ge [of w] sint_lt [of w] by simp_all

lemma trunc_of_int [simp]: "trunc (of_int k) = k"
  by (simp add: trunc_def)

lemma word_of_sint: "word_of_int (sint w) = (w :: 16 word)"
  by (metis of_int_sint scast_id)

lemma toInt16_of_sint [simp]: "toInt16 (of_int (sint w)) = w"
  by (simp add: toInt16_def word_of_sint)

lemma trunc_between:
  "of_int lo \<le> x \<Longrightarrow> x \<le> of_int hi \<Longrightarrow> lo \<le> trunc x \<and> trunc x \<le> hi"
  by (auto simp: trunc_def le_floor_iff floor_le_iff ceiling_le_iff le_ceiling_iff)

lemma trunc_inside:
  assumes "lo \<le> 0" and "0 \<le> hi" and "of_int lo - 1 < x" and "x < of_int hi + 1"
  shows "lo \<le> trunc x \<and> trunc x \<le> hi"
proof (cases "x < 0")
  case True
  have "x \<le> of_int hi" using True assms(2) by (meson less_eq_rat_def of_int_0_le_iff order_trans)
  then have "\<lceil>x\<rceil> \<le> hi" by (simp add: ceiling_le_iff)
  moreover have "lo \<le> \<lceil>x\<rceil>" using assms(3) by (simp add: le_ceiling_iff)
  ultimately show ?thesis using True by (simp add: trunc_def)
next
  case False
  have "of_int lo \<le> x" using False assms(1) by (meson of_int_le_0_iff order_trans not_le less_eq_rat_def)
  then have "lo \<le> \<lfloor>x\<rfloor>" by (simp add: le_floor_iff)
  moreover have "\<lfloor>x\<rfloor> \<le> hi" using assms(4) by (simp add: floor_le_iff)
  ultimately show ?thesis using False by (simp add: trunc_def)
qed

text \<open>A number whose integer part fits 16 bits is stored without wrapping.\<close>

lemma sint_toInt16:
  "- 32768 \<le> trunc x \<Longrightarrow> trunc x \<le> 32767 \<Longrightarrow> sint (toInt16 x) = trunc x"
  by (simp add: toInt16_def sint_sbintrunc' signed_take_bit_int_eq_self)

lemma fold_update2_nth:
  "k < length r \<Longrightarrow>
   fold (\<lambda>i r. r[i * 2 := f i, i * 2 + 1 := g i]) [a..<b] r ! k =
     (if a \<le> k div 2 \<and> k div 2 < b then (if even k then f (k div 2) else g (k div 2))
      else r ! k)"
proof (induction b)
  case 0
  then show ?case by simp
next
  case (Suc b)
  have len: "length (fold (\<lambda>i r. r[i * 2 := f i, i * 2 + 1 := g i]) js r) = length r" for js
    by (rule fold_length_preserved) simp
  have len': "length (fold (\<lambda>i r. r[i * 2 := f i, Suc (i * 2) := g i]) js r) = length r" for js
    by (rule fold_length_preserved) simp
  show ?case
  proof (cases "a \<le> b")
    case True
    then have up: "[a..<Suc b] = [a..<b] @ [b]" by simp
    have "k = b * 2 \<or> k = b * 2 + 1 \<or> k div 2 \<noteq> b" by presburger
    then consider "k = b * 2" | "k = b * 2 + 1" | "k div 2 \<noteq> b" by blast
    then show ?thesis
    proof cases
      case 1
      with Suc True show ?thesis by (simp add: up len len' nth_list_update)
    next
      case 2
      with Suc True show ?thesis by (simp add: up len len' nth_list_update)
    next
      case 3
      then have "k \<noteq> b * 2" "k \<noteq> b * 2 + 1" by presburger+
      with Suc True 3 show ?thesis by (auto simp: up len len' nth_list_update)
    qed
  next
    case False
    then show ?thesis by auto
  qed
qed

lemma fold_guarded_update_nth:
  assumes "\<And>i. i < n \<Longrightarrow> c i" and "k < n"
  shows "fold (\<lambda>i r. if c i then r[i := f i] else r[i := g i]) [0..<n] (replicate n z) ! k = f k"
proof -
  have "fold (\<lambda>i r. if c i then r[i := f i] else r[i := g i]) [0..<n] (replicate n z)
        = fold (\<lambda>i r. r[i := f i]) [0..<n] (replicate n z)"
    by (rule fold_cong) (use assms(1) in auto)
  with assms(2) show ?thesis by (simp add: fold_update_nth)
qed

lemma fold_guarded_update_length:
  "length (fold (\<lambda>i r. if c i then r[i := f i] else r[i := g i]) js r) = length r"
  by (rule fold_length_preserved) simp

section \<open>Properties of the resampler: upsampling\<close>

lemma midpoint_exact:
  fixes a b :: "16 word"
  shows "js_div (js_add (of_int (sint a)) (of_int (sint b))) 2 = (of_int (sint a) + of_int (sint b)) / 2"
    and "js_mul (js_add (of_int (sint a)) (of_int (sint b))) (1 / 2) = (of_int (sint a) + of_int (sint b)) / 2"
proof -
  have s: "\<bar>sint a + sint b\<bar> < 2 ^ 53"
    using int16_range [of a] int16_range [of b] by simp
  then have add: "js_add (of_int (sint a)) (of_int (sint b)) = of_int (sint a + sint b)"
    using fl_of_int [of "sint a + sint b"] by (simp add: js_add_def)
  have "fl (of_int (sint a + sint b) / 2 ^ 1) = of_int (sint a + sint b) / 2 ^ 1"
    using s by (rule fl_dyadic)
  then show "js_div (js_add (of_int (sint a)) (of_int (sint b))) 2 = (of_int (sint a) + of_int (sint b)) / 2"
    and "js_mul (js_add (of_int (sint a)) (of_int (sint b))) (1 / 2) = (of_int (sint a) + of_int (sint b)) / 2"
    by (simp_all add: add js_div_def js_mul_def)
qed

lemma midpoint_fits:
  fixes a b :: "16 word"
  shows "- 32768 \<le> trunc ((of_int (sint a) + of_int (sint b)) / 2)"
    and "trunc ((of_int (sint a) + of_int (sint b)) / 2) \<le> 32767"
proof -
  have "(of_int (- 32768) :: rat) \<le> (of_int (sint a) + of_int (sint b)) / 2"
    "(of_int (sint a) + of_int (sint b)) / 2 \<le> (of_int 32767 :: rat)"
    using int16_range [of a] int16_range [of b]
    by (simp_all flip: of_int_add) 
  from trunc_between [OF this]
  show "- 32768 \<le> trunc ((of_int (sint a) + of_int (sint b)) / 2)"
    and "trunc ((of_int (sint a) + of_int (sint b)) / 2) \<le> 32767" by simp_all
qed

lemma upsample8kTo16k_length:
  "length (upsample8kTo16k pcm8k) = 2 * length pcm8k"
  "length (upsample8kTo16k_half pcm8k) = 2 * length pcm8k"
  unfolding upsample8kTo16k_def upsample8kTo16k_half_def Let_def
  by (subst fold_length_preserved; simp)+

lemma upsample8kTo16k_nth:
  assumes "i < length pcm8k"
  shows "upsample8kTo16k pcm8k ! (2 * i) = pcm8k ! i"
    and "upsample8kTo16k pcm8k ! (2 * i + 1) =
           toInt16 ((of_int (sint (pcm8k ! i))
                     + of_int (sint (if i + 1 < length pcm8k then pcm8k ! (i + 1) else pcm8k ! i))) / 2)"
proof -
  have k: "2 * i < length (replicate (length pcm8k * 2) (0 :: 16 word))"
    "2 * i + 1 < length (replicate (length pcm8k * 2) (0 :: 16 word))"
    using assms by simp_all
  show "upsample8kTo16k pcm8k ! (2 * i) = pcm8k ! i"
    unfolding upsample8kTo16k_def Let_def
    by (subst fold_update2_nth [OF k(1)]) (use assms in simp)
  show "upsample8kTo16k pcm8k ! (2 * i + 1) =
           toInt16 ((of_int (sint (pcm8k ! i))
                     + of_int (sint (if i + 1 < length pcm8k then pcm8k ! (i + 1) else pcm8k ! i))) / 2)"
    unfolding upsample8kTo16k_def Let_def
    by (subst fold_update2_nth [OF k(2)]) (use assms in \<open>simp add: midpoint_exact\<close>)
qed

lemma upsample8kTo16k_half_nth:
  assumes "i < length pcm8k"
  shows "upsample8kTo16k_half pcm8k ! (2 * i) = pcm8k ! i"
    and "upsample8kTo16k_half pcm8k ! (2 * i + 1) =
           toInt16 ((of_int (sint (pcm8k ! i))
                     + of_int (sint (if i + 1 < length pcm8k then pcm8k ! (i + 1) else pcm8k ! i))) / 2)"
proof -
  have k: "2 * i < length (replicate (length pcm8k * 2) (0 :: 16 word))"
    "2 * i + 1 < length (replicate (length pcm8k * 2) (0 :: 16 word))"
    using assms by simp_all
  show "upsample8kTo16k_half pcm8k ! (2 * i) = pcm8k ! i"
    unfolding upsample8kTo16k_half_def Let_def
    by (subst fold_update2_nth [OF k(1)]) (use assms in simp)
  show "upsample8kTo16k_half pcm8k ! (2 * i + 1) =
           toInt16 ((of_int (sint (pcm8k ! i))
                     + of_int (sint (if i + 1 < length pcm8k then pcm8k ! (i + 1) else pcm8k ! i))) / 2)"
    unfolding upsample8kTo16k_half_def Let_def
    by (subst fold_update2_nth [OF k(2)]) (use assms in \<open>simp add: midpoint_exact\<close>)
qed

text \<open>
  C6, as the code has it. The output has twice the length of the input; position \<open>2i\<close>
  holds input sample \<open>i\<close>; position \<open>2i + 1\<close> holds the arithmetic mean of input samples
  \<open>i\<close> and \<open>i + 1\<close> with its fraction cut off (rounded towards zero), the last input
  sample standing in for the missing successor at the end. Both ways of writing the
  midpoint (\<^verbatim>\<open>/ 2\<close> and \<^verbatim>\<open>* 0.5\<close>) give this.
\<close>

theorem upsample_interleaves_truncated_means:
  "length (upsample8kTo16k pcm8k) = 2 * length pcm8k
   \<and> length (upsample8kTo16k_half pcm8k) = 2 * length pcm8k
   \<and> (\<forall>i<length pcm8k.
         upsample8kTo16k pcm8k ! (2 * i) = pcm8k ! i
         \<and> upsample8kTo16k_half pcm8k ! (2 * i) = pcm8k ! i
         \<and> sint (upsample8kTo16k pcm8k ! (2 * i + 1)) =
             trunc ((of_int (sint (pcm8k ! i))
                     + of_int (sint (if i + 1 < length pcm8k then pcm8k ! (i + 1) else pcm8k ! i))) / 2)
         \<and> sint (upsample8kTo16k_half pcm8k ! (2 * i + 1)) =
             trunc ((of_int (sint (pcm8k ! i))
                     + of_int (sint (if i + 1 < length pcm8k then pcm8k ! (i + 1) else pcm8k ! i))) / 2))"
  by (simp add: upsample8kTo16k_length upsample8kTo16k_nth upsample8kTo16k_half_nth
      sint_toInt16 midpoint_fits del: One_nat_def)

theorem upsample_interleaves_truncated_means_witness:
  "length (upsample8kTo16k [3, 8, - 5]) = 6
   \<and> upsample8kTo16k [3, 8, - 5] ! 2 = 8
   \<and> sint (upsample8kTo16k [3, 8, - 5] ! 3) = 1
   \<and> sint (upsample8kTo16k [3, 8, - 5] ! 5) = - 5"
proof -
  have t: "trunc (3 / 2) = 1" "trunc (- 5) = - 5" by (simp_all add: trunc_def floor_eq_iff)
  have "(1::nat) < length [3, 8, - 5 :: 16 word]" "(2::nat) < length [3, 8, - 5 :: 16 word]"
    by simp_all
  with upsample_interleaves_truncated_means [of "[3, 8, - 5]"]
  have "length (upsample8kTo16k [3, 8, - 5]) = 2 * length [3, 8, - 5 :: 16 word]"
    "upsample8kTo16k [3, 8, - 5] ! (2 * 1) = [3, 8, - 5] ! 1"
    "sint (upsample8kTo16k [3, 8, - 5] ! (2 * 1 + 1)) =
       trunc ((of_int (sint ([3, 8, - 5 :: 16 word] ! 1))
               + of_int (sint (if 1 + 1 < length [3, 8, - 5 :: 16 word]
                               then [3, 8, - 5 :: 16 word] ! (1 + 1) else [3, 8, - 5] ! 1))) / 2)"
    "sint (upsample8kTo16k [3, 8, - 5] ! (2 * 2 + 1)) =
       trunc ((of_int (sint ([3, 8, - 5 :: 16 word] ! 2))
               + of_int (sint (if 2 + 1 < length [3, 8, - 5 :: 16 word]
                               then [3, 8, - 5 :: 16 word] ! (2 + 1) else [3, 8, - 5] ! 2))) / 2)"
    by blast+
  then show ?thesis by (simp add: t)
qed

text \<open>The mean of 1 and 2 is 3/2; the output holds 1.\<close>

theorem upsample_midpoint_is_truncated:
  "upsample8kTo16k [1, 2] ! 1 = 1
   \<and> of_int (sint (upsample8kTo16k [1, 2] ! 1))
       \<noteq> ((of_int (sint (1 :: 16 word)) + of_int (sint (2 :: 16 word))) / 2 :: rat)"
proof -
  have "upsample8kTo16k [1, 2] ! (2 * 0 + 1) = toInt16 (3 / 2)"
    by (subst upsample8kTo16k_nth) simp_all
  moreover have "trunc (3 / 2) = 1" by (simp add: trunc_def floor_eq_iff)
  then have "toInt16 (3 / 2) = 1" by (simp add: toInt16_def)
  ultimately show ?thesis by simp
qed

section \<open>Properties of the resampler: downsampling\<close>

lemma anchor_in_range: "i < n div 3 \<Longrightarrow> i * 3 + 2 < (n::nat)"
  by presburger

lemma downsample24kTo8k_length:
  "length (downsample24kTo8k_every3rd pcm24k) = length pcm24k div 3"
  "length (downsample24kTo8k_weighted pcm24k) = length pcm24k div 3"
  "length (downsample24kTo8k_gain25 pcm24k) = length pcm24k div 3"
  "length (downsample24kTo8k_gain15 pcm24k) = length pcm24k div 3"
  unfolding downsample24kTo8k_every3rd_def downsample24kTo8k_weighted_def
    downsample24kTo8k_gain25_def downsample24kTo8k_gain15_def Let_def
  by (simp_all add: fold_guarded_update_length)

lemma downsample24kTo8k_every3rd_nth:
  assumes "i < length pcm24k div 3"
  shows "downsample24kTo8k_every3rd pcm24k ! i = pcm24k ! (i * 3)"
proof -
  have "i * 3 < length pcm24k" using anchor_in_range [OF assms] by simp
  with assms show ?thesis
    by (simp add: downsample24kTo8k_every3rd_def Let_def fold_update_nth elem_or_undefined_def)
qed

lemma downsample24kTo8k_weighted_nth:
  assumes "i < length pcm24k div 3"
  shows "downsample24kTo8k_weighted pcm24k ! i =
     toInt16 (js_add (js_add (js_mul (of_int (sint (pcm24k ! (i * 3)))) (1 / 4))
                             (js_mul (of_int (sint (pcm24k ! (i * 3 + 1)))) (1 / 2)))
                     (js_mul (of_int (sint (pcm24k ! (i * 3 + 2)))) (1 / 4)))"
  unfolding downsample24kTo8k_weighted_def Let_def
  by (rule fold_guarded_update_nth) (use assms anchor_in_range in auto)

lemma downsample24kTo8k_gain25_nth:
  assumes "i < length pcm24k div 3"
  shows "downsample24kTo8k_gain25 pcm24k ! i =
     toInt16 (js_add (js_add (js_mul (clamp16 (js_mul (of_int (sint (pcm24k ! (i * 3)))) (5 / 2))) lit_0_2)
                             (js_mul (clamp16 (js_mul (of_int (sint (pcm24k ! (i * 3 + 1)))) (5 / 2))) lit_0_6))
                     (js_mul (clamp16 (js_mul (of_int (sint (pcm24k ! (i * 3 + 2)))) (5 / 2))) lit_0_2))"
  unfolding downsample24kTo8k_gain25_def Let_def
  by (rule fold_guarded_update_nth) (use assms anchor_in_range in auto)

lemma downsample24kTo8k_gain15_nth:
  assumes "i < length pcm24k div 3"
  shows "downsample24kTo8k_gain15 pcm24k ! i =
     toInt16 (js_add (js_add (js_mul (clamp16 (js_mul (of_int (sint (pcm24k ! (i * 3)))) (3 / 2))) (1 / 4))
                             (js_mul (clamp16 (js_mul (of_int (sint (pcm24k ! (i * 3 + 1)))) (3 / 2))) (1 / 2)))
                     (js_mul (clamp16 (js_mul (of_int (sint (pcm24k ! (i * 3 + 2)))) (3 / 2))) (1 / 4)))"
  unfolding downsample24kTo8k_gain15_def Let_def
  by (rule fold_guarded_update_nth) (use assms anchor_in_range in auto)

subsection \<open>Scaling and clamping\<close>

lemma scale_exact:
  fixes w :: "16 word"
  shows "js_mul (of_int (sint w)) (5 / 2) = of_int (sint w) * 5 / 2"
    and "js_mul (of_int (sint w)) (3 / 2) = of_int (sint w) * 3 / 2"
proof -
  have "\<bar>sint w * 5\<bar> < 2 ^ 53" "\<bar>sint w * 3\<bar> < 2 ^ 53"
    using int16_range [of w] by simp_all
  from fl_dyadic [OF this(1), of 1] fl_dyadic [OF this(2), of 1]
  show "js_mul (of_int (sint w)) (5 / 2) = of_int (sint w) * 5 / 2"
    and "js_mul (of_int (sint w)) (3 / 2) = of_int (sint w) * 3 / 2"
    by (simp_all add: js_mul_def)
qed

lemma clamp16_range: "- 32768 \<le> clamp16 p" "clamp16 p \<le> 32767"
  by (simp_all add: clamp16_def)

lemma clamp16_halves: "2 * p \<in> \<int> \<Longrightarrow> 2 * clamp16 p \<in> \<int>"
  by (auto simp: clamp16_def max_def min_def)

lemma scaled_halves:
  "2 * (of_int k * 5 / 2 :: rat) \<in> \<int>" "2 * (of_int k * 3 / 2 :: rat) \<in> \<int>"
  by simp_all

subsection \<open>The filter with weights 0.25, 0.5, 0.25 is exact\<close>

lemma filter_121_exact:
  assumes h: "2 * p1 \<in> \<int>" "2 * p2 \<in> \<int>" "2 * p3 \<in> \<int>"
    and b: "\<bar>p1\<bar> \<le> 32768" "\<bar>p2\<bar> \<le> 32768" "\<bar>p3\<bar> \<le> 32768"
  shows "js_add (js_add (js_mul p1 (1 / 4)) (js_mul p2 (1 / 2))) (js_mul p3 (1 / 4))
         = spec_triangular p1 p2 p3"
proof -
  have i1: "8 * (p1 * (1 / 4)) \<in> \<int>" using h(1) by simp
  have i2: "8 * (p2 * (1 / 2)) \<in> \<int>"
  proof -
    have "8 * (p2 * (1 / 2)) = 2 * (2 * p2)" by simp
    also have "\<dots> \<in> \<int>" using h(2) by (rule Ints_mult [OF Ints_numeral])
    finally show ?thesis .
  qed
  have i3: "8 * (p3 * (1 / 4)) \<in> \<int>" using h(3) by simp
  have m1: "js_mul p1 (1 / 4) = p1 * (1 / 4)"
    unfolding js_mul_def by (rule fl_eighths [OF i1]) (use b(1) in simp)
  have m2: "js_mul p2 (1 / 2) = p2 * (1 / 2)"
    unfolding js_mul_def by (rule fl_eighths [OF i2]) (use b(2) in simp)
  have m3: "js_mul p3 (1 / 4) = p3 * (1 / 4)"
    unfolding js_mul_def by (rule fl_eighths [OF i3]) (use b(3) in simp)
  have i12: "8 * (p1 * (1 / 4) + p2 * (1 / 2)) \<in> \<int>"
    using Ints_add [OF i1 i2] by (simp add: algebra_simps)
  have a1: "js_add (p1 * (1 / 4)) (p2 * (1 / 2)) = p1 * (1 / 4) + p2 * (1 / 2)"
    unfolding js_add_def by (rule fl_eighths [OF i12]) (use b(1,2) in \<open>simp add: abs_if split: if_splits\<close>)
  have i123: "8 * (p1 * (1 / 4) + p2 * (1 / 2) + p3 * (1 / 4)) \<in> \<int>"
    using Ints_add [OF i12 i3] by (simp add: algebra_simps)
  have a2: "js_add (p1 * (1 / 4) + p2 * (1 / 2)) (p3 * (1 / 4)) = p1 * (1 / 4) + p2 * (1 / 2) + p3 * (1 / 4)"
    unfolding js_add_def by (rule fl_eighths [OF i123]) (use b in \<open>simp add: abs_if split: if_splits\<close>)
  show ?thesis unfolding m1 m2 m3 a1 a2 spec_triangular_def by simp
qed

lemma spec_triangular_between:
  assumes "lo \<le> p1" "lo \<le> p2" "lo \<le> p3" "p1 \<le> hi" "p2 \<le> hi" "p3 \<le> hi"
  shows "lo \<le> spec_triangular p1 p2 p3" "spec_triangular p1 p2 p3 \<le> hi"
  using assms by (simp_all add: spec_triangular_def)


subsection \<open>The filter with weights 0.2, 0.6, 0.2 in double arithmetic\<close>

lemma lit_0_2_value: "lit_0_2 = 3602879701896397 / 2 ^ 54"
  unfolding lit_0_2_def by code_simp

lemma lit_0_6_value: "lit_0_6 = 5404319552844595 / 2 ^ 53"
  unfolding lit_0_6_def by code_simp

text \<open>The three weights, as doubles, sum to exactly 1.\<close>

lemma weights_262_sum: "lit_0_2 + lit_0_6 + lit_0_2 = 1"
  by (simp add: lit_0_2_value lit_0_6_value)

lemma filter_262_upper:
  assumes "p1 \<le> U" "p2 \<le> U" "p3 \<le> U" "0 \<le> U"
  shows "js_add (js_add (js_mul p1 lit_0_2) (js_mul p2 lit_0_6)) (js_mul p3 lit_0_2)
         \<le> U * (1 + 1 / 2 ^ 53) ^ 3"
proof -
  define u :: rat where "u = 1 + 1 / 2 ^ 53"
  have u: "1 \<le> u" "0 \<le> u" by (simp_all add: u_def)
  have L: "0 \<le> lit_0_2" "0 \<le> lit_0_6" by (simp_all add: lit_0_2_value lit_0_6_value)
  have a: "js_mul p1 lit_0_2 \<le> U * lit_0_2 * u"
    unfolding js_mul_def u_def using assms L by (intro fl_le mult_right_mono mult_nonneg_nonneg)
  have b: "js_mul p2 lit_0_6 \<le> U * lit_0_6 * u"
    unfolding js_mul_def u_def using assms L by (intro fl_le mult_right_mono mult_nonneg_nonneg)
  have c: "js_mul p3 lit_0_2 \<le> U * lit_0_2 * u"
    unfolding js_mul_def u_def using assms L by (intro fl_le mult_right_mono mult_nonneg_nonneg)
  have ab: "js_add (js_mul p1 lit_0_2) (js_mul p2 lit_0_6) \<le> (U * lit_0_2 * u + U * lit_0_6 * u) * u"
    unfolding js_add_def u_def [symmetric]
    using a b assms(4) L u unfolding u_def by (intro fl_le add_mono add_nonneg_nonneg mult_nonneg_nonneg) simp_all
  have "js_add (js_add (js_mul p1 lit_0_2) (js_mul p2 lit_0_6)) (js_mul p3 lit_0_2)
        \<le> ((U * lit_0_2 * u + U * lit_0_6 * u) * u + U * lit_0_2 * u) * u"
    unfolding js_add_def [of "js_add _ _"]
    using ab c assms(4) L u unfolding u_def by (intro fl_le add_mono add_nonneg_nonneg mult_nonneg_nonneg) simp_all
  also have "\<dots> \<le> ((U * lit_0_2 * u + U * lit_0_6 * u) * u + U * lit_0_2 * u * u) * u"
  proof -
    have "0 \<le> U * lit_0_2 * u"
      using assms(4) L u by (intro mult_nonneg_nonneg)
    from mult_left_mono [OF u(1) this]
    have "U * lit_0_2 * u \<le> U * lit_0_2 * u * u" by simp
    then have "(U * lit_0_2 * u + U * lit_0_6 * u) * u + U * lit_0_2 * u
               \<le> (U * lit_0_2 * u + U * lit_0_6 * u) * u + U * lit_0_2 * u * u"
      by (rule add_left_mono)
    then show ?thesis using u(2) by (rule mult_right_mono)
  qed
  also have "\<dots> = U * (lit_0_2 + lit_0_6 + lit_0_2) * u ^ 3"
    by (simp add: algebra_simps power3_eq_cube)
  finally show ?thesis by (simp add: weights_262_sum u_def)
qed

lemma filter_262_lower:
  assumes "- U \<le> p1" "- U \<le> p2" "- U \<le> p3" "0 \<le> U"
  shows "- (U * (1 + 1 / 2 ^ 53) ^ 3)
         \<le> js_add (js_add (js_mul p1 lit_0_2) (js_mul p2 lit_0_6)) (js_mul p3 lit_0_2)"
proof -
  define u :: rat where "u = 1 + 1 / 2 ^ 53"
  have u: "1 \<le> u" "0 \<le> u" by (simp_all add: u_def)
  have L: "0 \<le> lit_0_2" "0 \<le> lit_0_6" by (simp_all add: lit_0_2_value lit_0_6_value)
  have m: "- (U * l) \<le> p * l" if "- U \<le> p" "0 \<le> l" for p l :: rat
    using mult_right_mono [OF that] by simp
  have a: "- (U * lit_0_2 * u) \<le> js_mul p1 lit_0_2"
    unfolding js_mul_def u_def using assms L by (intro fl_ge m mult_nonneg_nonneg)
  have b: "- (U * lit_0_6 * u) \<le> js_mul p2 lit_0_6"
    unfolding js_mul_def u_def using assms L by (intro fl_ge m mult_nonneg_nonneg)
  have c: "- (U * lit_0_2 * u) \<le> js_mul p3 lit_0_2"
    unfolding js_mul_def u_def using assms L by (intro fl_ge m mult_nonneg_nonneg)
  have ab: "- ((U * lit_0_2 * u + U * lit_0_6 * u) * u) \<le> js_add (js_mul p1 lit_0_2) (js_mul p2 lit_0_6)"
  proof -
    have "- (U * lit_0_2 * u + U * lit_0_6 * u) \<le> js_mul p1 lit_0_2 + js_mul p2 lit_0_6"
      using a b by simp
    moreover have "0 \<le> U * lit_0_2 * u + U * lit_0_6 * u"
      using assms(4) L u by (intro add_nonneg_nonneg mult_nonneg_nonneg)
    ultimately show ?thesis unfolding js_add_def u_def by (rule fl_ge)
  qed
  have v: "- (((U * lit_0_2 * u + U * lit_0_6 * u) * u + U * lit_0_2 * u) * u)
        \<le> js_add (js_add (js_mul p1 lit_0_2) (js_mul p2 lit_0_6)) (js_mul p3 lit_0_2)"
  proof -
    have "- ((U * lit_0_2 * u + U * lit_0_6 * u) * u + U * lit_0_2 * u)
          \<le> js_add (js_mul p1 lit_0_2) (js_mul p2 lit_0_6) + js_mul p3 lit_0_2"
      using ab c by simp
    moreover have "0 \<le> (U * lit_0_2 * u + U * lit_0_6 * u) * u + U * lit_0_2 * u"
      using assms(4) L u by (intro add_nonneg_nonneg mult_nonneg_nonneg)
    ultimately show ?thesis unfolding js_add_def [of "js_add _ _"] u_def by (rule fl_ge)
  qed
  have w: "((U * lit_0_2 * u + U * lit_0_6 * u) * u + U * lit_0_2 * u) * u
        \<le> ((U * lit_0_2 * u + U * lit_0_6 * u) * u + U * lit_0_2 * u * u) * u"
  proof -
    have "0 \<le> U * lit_0_2 * u"
      using assms(4) L u by (intro mult_nonneg_nonneg)
    from mult_left_mono [OF u(1) this]
    have "U * lit_0_2 * u \<le> U * lit_0_2 * u * u" by simp
    then have "(U * lit_0_2 * u + U * lit_0_6 * u) * u + U * lit_0_2 * u
               \<le> (U * lit_0_2 * u + U * lit_0_6 * u) * u + U * lit_0_2 * u * u"
      by (rule add_left_mono)
    then show ?thesis using u(2) by (rule mult_right_mono)
  qed
  have "- (U * (lit_0_2 + lit_0_6 + lit_0_2) * u ^ 3)
        = - (((U * lit_0_2 * u + U * lit_0_6 * u) * u + U * lit_0_2 * u * u) * u)"
    by (simp add: algebra_simps power3_eq_cube)
  also have "\<dots> \<le> - (((U * lit_0_2 * u + U * lit_0_6 * u) * u + U * lit_0_2 * u) * u)"
    using w by simp
  also note v
  finally show ?thesis by (simp add: weights_262_sum u_def)
qed

lemma filter_262_fits:
  assumes "- 32768 \<le> p1" "p1 \<le> 32767" "- 32768 \<le> p2" "p2 \<le> 32767" "- 32768 \<le> p3" "p3 \<le> 32767"
  shows "- 32768 \<le> trunc (js_add (js_add (js_mul p1 lit_0_2) (js_mul p2 lit_0_6)) (js_mul p3 lit_0_2))
       \<and> trunc (js_add (js_add (js_mul p1 lit_0_2) (js_mul p2 lit_0_6)) (js_mul p3 lit_0_2)) \<le> 32767"
proof -
  let ?v = "js_add (js_add (js_mul p1 lit_0_2) (js_mul p2 lit_0_6)) (js_mul p3 lit_0_2)"
  have "?v \<le> 32767 * (1 + 1 / 2 ^ 53) ^ 3"
    using assms by (intro filter_262_upper) simp_all
  also have "\<dots> < 32768" by (simp add: power_divide)
  finally have hi: "?v < of_int 32767 + 1" by simp
  have "- 32769 < - (32768 * (1 + 1 / 2 ^ 53) ^ 3 :: rat)" by (simp add: power_divide)
  also have "\<dots> \<le> ?v"
    using assms by (intro filter_262_lower) simp_all
  finally have lo: "of_int (- 32768) - 1 < ?v" by simp
  from trunc_inside [OF _ _ lo hi] show ?thesis by simp
qed


subsection \<open>What an output sample is\<close>

lemma trunc_numeral [simp]:
  "trunc (numeral n) = numeral n" "trunc (- numeral n) = - numeral n" "trunc 0 = 0"
  by (simp_all add: trunc_def)

lemma clamped_scaled:
  fixes w :: "16 word"
  shows "2 * clamp16 (of_int (sint w) * 5 / 2) \<in> \<int>" "2 * clamp16 (of_int (sint w) * 3 / 2) \<in> \<int>"
    "\<bar>clamp16 p\<bar> \<le> 32768"
  using clamp16_range [of p] by (simp_all add: clamp16_halves)

lemma sample_halves:
  fixes w :: "16 word"
  shows "2 * (of_int (sint w) :: rat) \<in> \<int>" "\<bar>of_int (sint w) :: rat\<bar> \<le> 32768"
proof -
  show "2 * (of_int (sint w) :: rat) \<in> \<int>" by (intro Ints_mult) simp_all
  have "\<bar>sint w\<bar> \<le> 32768" using int16_range [of w] by simp
  then have "(of_int \<bar>sint w\<bar> :: rat) \<le> of_int 32768" by (simp only: of_int_le_iff)
  then show "\<bar>of_int (sint w) :: rat\<bar> \<le> 32768" by simp
qed

lemma weighted_value:
  assumes "i < length pcm24k div 3"
  shows "sint (downsample24kTo8k_weighted pcm24k ! i) =
           trunc (spec_triangular (of_int (sint (pcm24k ! (i * 3))))
                                  (of_int (sint (pcm24k ! (i * 3 + 1))))
                                  (of_int (sint (pcm24k ! (i * 3 + 2)))))"
proof -
  let ?a = "of_int (sint (pcm24k ! (i * 3))) :: rat"
  let ?b = "of_int (sint (pcm24k ! (i * 3 + 1))) :: rat"
  let ?c = "of_int (sint (pcm24k ! (i * 3 + 2))) :: rat"
  have r: "of_int (- 32768) \<le> ?a" "of_int (- 32768) \<le> ?b" "of_int (- 32768) \<le> ?c"
    "?a \<le> of_int 32767" "?b \<le> of_int 32767" "?c \<le> of_int 32767"
    using int16_range by (simp_all only: of_int_le_iff)
  have "downsample24kTo8k_weighted pcm24k ! i = toInt16 (spec_triangular ?a ?b ?c)"
    by (simp only: downsample24kTo8k_weighted_nth [OF assms] filter_121_exact [OF sample_halves(1) sample_halves(1) sample_halves(1) sample_halves(2) sample_halves(2) sample_halves(2)])
  moreover have "- 32768 \<le> trunc (spec_triangular ?a ?b ?c) \<and> trunc (spec_triangular ?a ?b ?c) \<le> 32767"
    by (rule trunc_between) (rule spec_triangular_between [OF r])+
  ultimately show ?thesis by (simp add: sint_toInt16)
qed

lemma gain15_value:
  assumes "i < length pcm24k div 3"
  shows "downsample24kTo8k_gain15 pcm24k ! i =
           toInt16 (spec_triangular (clamp16 (of_int (sint (pcm24k ! (i * 3))) * 3 / 2))
                                    (clamp16 (of_int (sint (pcm24k ! (i * 3 + 1))) * 3 / 2))
                                    (clamp16 (of_int (sint (pcm24k ! (i * 3 + 2))) * 3 / 2)))"
    and "- 32768 \<le> trunc (spec_triangular (clamp16 (of_int (sint (pcm24k ! (i * 3))) * 3 / 2))
                                    (clamp16 (of_int (sint (pcm24k ! (i * 3 + 1))) * 3 / 2))
                                    (clamp16 (of_int (sint (pcm24k ! (i * 3 + 2))) * 3 / 2)))"
    and "trunc (spec_triangular (clamp16 (of_int (sint (pcm24k ! (i * 3))) * 3 / 2))
                                    (clamp16 (of_int (sint (pcm24k ! (i * 3 + 1))) * 3 / 2))
                                    (clamp16 (of_int (sint (pcm24k ! (i * 3 + 2))) * 3 / 2))) \<le> 32767"
proof -
  let ?a = "clamp16 (of_int (sint (pcm24k ! (i * 3))) * 3 / 2)"
  let ?b = "clamp16 (of_int (sint (pcm24k ! (i * 3 + 1))) * 3 / 2)"
  let ?c = "clamp16 (of_int (sint (pcm24k ! (i * 3 + 2))) * 3 / 2)"
  show "downsample24kTo8k_gain15 pcm24k ! i = toInt16 (spec_triangular ?a ?b ?c)"
    by (simp only: downsample24kTo8k_gain15_nth [OF assms] scale_exact
        filter_121_exact [OF clamped_scaled(2) clamped_scaled(2) clamped_scaled(2)
                             clamped_scaled(3) clamped_scaled(3) clamped_scaled(3)])
  have r: "of_int (- 32768) \<le> ?a" "of_int (- 32768) \<le> ?b" "of_int (- 32768) \<le> ?c"
    "?a \<le> of_int 32767" "?b \<le> of_int 32767" "?c \<le> of_int 32767"
    using clamp16_range by simp_all
  have "- 32768 \<le> trunc (spec_triangular ?a ?b ?c) \<and> trunc (spec_triangular ?a ?b ?c) \<le> 32767"
    by (rule trunc_between) (rule spec_triangular_between [OF r])+
  then show "- 32768 \<le> trunc (spec_triangular ?a ?b ?c)"
    and "trunc (spec_triangular ?a ?b ?c) \<le> 32767" by simp_all
qed

lemma gain25_value:
  assumes "i < length pcm24k div 3"
  shows "downsample24kTo8k_gain25 pcm24k ! i =
           toInt16 (js_add (js_add (js_mul (clamp16 (of_int (sint (pcm24k ! (i * 3))) * 5 / 2)) lit_0_2)
                                   (js_mul (clamp16 (of_int (sint (pcm24k ! (i * 3 + 1))) * 5 / 2)) lit_0_6))
                           (js_mul (clamp16 (of_int (sint (pcm24k ! (i * 3 + 2))) * 5 / 2)) lit_0_2))"
  by (simp only: downsample24kTo8k_gain25_nth [OF assms] scale_exact)


text \<open>
  C7, as the code has it. Every form of \<^verbatim>\<open>downsample24kTo8k\<close> returns \<open>floor(n / 3)\<close>
  samples for an input of length \<open>n\<close>. Every anchor \<open>3i\<close> with \<open>i < floor(n / 3)\<close> has both
  following samples inside the input, so no output sample is passed through unfiltered by
  the tail branch (the \<open>n mod 3\<close> trailing samples are dropped). Output sample \<open>i\<close> is:
  the anchor sample itself in the form that takes every third sample; in the filtered
  forms the combination, with triangular weights summing to 1, of the samples at
  \<open>3i\<close>, \<open>3i + 1\<close>, \<open>3i + 2\<close> after each was multiplied by the gain of that form (none,
  1.5 or 2.5) and clamped to [-32768, 32767], with the fraction cut off. The weights are
  0.25, 0.5, 0.25, exactly; with gain 2.5 they are 0.2, 0.6, 0.2 in double arithmetic.
\<close>

theorem downsample_combines_scaled_clamped_samples:
  "length (downsample24kTo8k_every3rd pcm24k) = length pcm24k div 3
   \<and> length (downsample24kTo8k_weighted pcm24k) = length pcm24k div 3
   \<and> length (downsample24kTo8k_gain25 pcm24k) = length pcm24k div 3
   \<and> length (downsample24kTo8k_gain15 pcm24k) = length pcm24k div 3
   \<and> (\<forall>i<length pcm24k div 3.
         i * 3 + 2 < length pcm24k
         \<and> downsample24kTo8k_every3rd pcm24k ! i = pcm24k ! (i * 3)
         \<and> sint (downsample24kTo8k_weighted pcm24k ! i) =
             trunc (spec_triangular (of_int (sint (pcm24k ! (i * 3))))
                                    (of_int (sint (pcm24k ! (i * 3 + 1))))
                                    (of_int (sint (pcm24k ! (i * 3 + 2)))))
         \<and> sint (downsample24kTo8k_gain15 pcm24k ! i) =
             trunc (spec_triangular (clamp16 (of_int (sint (pcm24k ! (i * 3))) * 3 / 2))
                                    (clamp16 (of_int (sint (pcm24k ! (i * 3 + 1))) * 3 / 2))
                                    (clamp16 (of_int (sint (pcm24k ! (i * 3 + 2))) * 3 / 2)))
         \<and> sint (downsample24kTo8k_gain25 pcm24k ! i) =
             trunc (js_add (js_add (js_mul (clamp16 (of_int (sint (pcm24k ! (i * 3))) * 5 / 2)) lit_0_2)
                                   (js_mul (clamp16 (of_int (sint (pcm24k ! (i * 3 + 1))) * 5 / 2)) lit_0_6))
                           (js_mul (clamp16 (of_int (sint (pcm24k ! (i * 3 + 2))) * 5 / 2)) lit_0_2)))
   \<and> lit_0_2 + lit_0_6 + lit_0_2 = 1"
proof -
  have "sint (downsample24kTo8k_gain15 pcm24k ! i) =
             trunc (spec_triangular (clamp16 (of_int (sint (pcm24k ! (i * 3))) * 3 / 2))
                                    (clamp16 (of_int (sint (pcm24k ! (i * 3 + 1))) * 3 / 2))
                                    (clamp16 (of_int (sint (pcm24k ! (i * 3 + 2))) * 3 / 2)))"
    if "i < length pcm24k div 3" for i
    using gain15_value [OF that] by (simp only: sint_toInt16)
  moreover have "sint (downsample24kTo8k_gain25 pcm24k ! i) =
             trunc (js_add (js_add (js_mul (clamp16 (of_int (sint (pcm24k ! (i * 3))) * 5 / 2)) lit_0_2)
                                   (js_mul (clamp16 (of_int (sint (pcm24k ! (i * 3 + 1))) * 5 / 2)) lit_0_6))
                           (js_mul (clamp16 (of_int (sint (pcm24k ! (i * 3 + 2))) * 5 / 2)) lit_0_2))"
    if "i < length pcm24k div 3" for i
    using filter_262_fits [OF clamp16_range clamp16_range clamp16_range]
    by (simp only: gain25_value [OF that] sint_toInt16)
  ultimately have "\<forall>i<length pcm24k div 3.
         i * 3 + 2 < length pcm24k
         \<and> downsample24kTo8k_every3rd pcm24k ! i = pcm24k ! (i * 3)
         \<and> sint (downsample24kTo8k_weighted pcm24k ! i) =
             trunc (spec_triangular (of_int (sint (pcm24k ! (i * 3))))
                                    (of_int (sint (pcm24k ! (i * 3 + 1))))
                                    (of_int (sint (pcm24k ! (i * 3 + 2)))))
         \<and> sint (downsample24kTo8k_gain15 pcm24k ! i) =
             trunc (spec_triangular (clamp16 (of_int (sint (pcm24k ! (i * 3))) * 3 / 2))
                                    (clamp16 (of_int (sint (pcm24k ! (i * 3 + 1))) * 3 / 2))
                                    (clamp16 (of_int (sint (pcm24k ! (i * 3 + 2))) * 3 / 2)))
         \<and> sint (downsample24kTo8k_gain25 pcm24k ! i) =
             trunc (js_add (js_add (js_mul (clamp16 (of_int (sint (pcm24k ! (i * 3))) * 5 / 2)) lit_0_2)
                                   (js_mul (clamp16 (of_int (sint (pcm24k ! (i * 3 + 1))) * 5 / 2)) lit_0_6))
                           (js_mul (clamp16 (of_int (sint (pcm24k ! (i * 3 + 2))) * 5 / 2)) lit_0_2))"
    using anchor_in_range downsample24kTo8k_every3rd_nth weighted_value by blast
  then show ?thesis
    using downsample24kTo8k_length [of pcm24k] weights_262_sum by blast
qed

theorem downsample_combines_scaled_clamped_samples_witness:
  "length (downsample24kTo8k_weighted [100, 200, 300, 7]) = 1
   \<and> downsample24kTo8k_every3rd [100, 200, 300, 7] ! 0 = 100
   \<and> sint (downsample24kTo8k_weighted [100, 200, 300, 7] ! 0) = 200
   \<and> sint (downsample24kTo8k_gain15 [100, 200, 300, 7] ! 0) = 300"
proof -
  have i: "(0::nat) < length [100, 200, 300, 7 :: 16 word] div 3" by simp
  have t: "trunc (spec_triangular 100 200 300) = 200"
    "trunc (spec_triangular (clamp16 150) (clamp16 300) (clamp16 450)) = 300"
    by (simp_all add: spec_triangular_def clamp16_def)
  from downsample_combines_scaled_clamped_samples [of "[100, 200, 300, 7]"] i
  have "length (downsample24kTo8k_weighted [100, 200, 300, 7]) = length [100, 200, 300, 7 :: 16 word] div 3"
    "downsample24kTo8k_every3rd [100, 200, 300, 7] ! 0 = [100, 200, 300, 7] ! (0 * 3)"
    "sint (downsample24kTo8k_weighted [100, 200, 300, 7] ! 0) =
       trunc (spec_triangular (of_int (sint ([100, 200, 300, 7 :: 16 word] ! (0 * 3))))
                              (of_int (sint ([100, 200, 300, 7 :: 16 word] ! (0 * 3 + 1))))
                              (of_int (sint ([100, 200, 300, 7 :: 16 word] ! (0 * 3 + 2)))))"
    "sint (downsample24kTo8k_gain15 [100, 200, 300, 7] ! 0) =
       trunc (spec_triangular (clamp16 (of_int (sint ([100, 200, 300, 7 :: 16 word] ! (0 * 3))) * 3 / 2))
                              (clamp16 (of_int (sint ([100, 200, 300, 7 :: 16 word] ! (0 * 3 + 1))) * 3 / 2))
                              (clamp16 (of_int (sint ([100, 200, 300, 7 :: 16 word] ! (0 * 3 + 2))) * 3 / 2)))"
    by blast+
  then show ?thesis by (simp add: t)
qed

text \<open>
  Three equal samples of 100: every combination with weights summing to 1 is 100, the
  form with gain 2.5 gives 250. The samples 0, 100, 0: the form that takes every third
  sample gives 0, the triangular mean is 50.
\<close>

theorem downsample_is_not_the_triangular_mean:
  "sint (downsample24kTo8k_gain25 [100, 100, 100] ! 0) = 250
   \<and> (250 :: rat) \<noteq> spec_triangular 100 100 100
   \<and> sint (downsample24kTo8k_every3rd [0, 100, 0] ! 0) = 0
   \<and> (0 :: rat) \<noteq> spec_triangular 0 100 0"
proof -
  have c: "clamp16 250 = 250" by (simp add: clamp16_def)
  have v: "trunc (js_add (js_add (js_mul 250 lit_0_2) (js_mul 250 lit_0_6)) (js_mul 250 lit_0_2)) = 250"
    by code_simp
  have "downsample24kTo8k_gain25 [100, 100, 100] ! 0 =
          toInt16 (js_add (js_add (js_mul 250 lit_0_2) (js_mul 250 lit_0_6)) (js_mul 250 lit_0_2))"
    by (subst gain25_value) (simp_all add: c)
  then have "sint (downsample24kTo8k_gain25 [100, 100, 100] ! 0) = 250"
    by (simp add: sint_toInt16 v)
  moreover have "downsample24kTo8k_every3rd [0, 100, 0] ! 0 = 0"
    by (subst downsample24kTo8k_every3rd_nth) simp_all
  ultimately show ?thesis by (simp add: spec_triangular_def)
qed

text \<open>
  C8. In the two forms of \<^verbatim>\<open>downsample24kTo8k\<close> with a gain (2.5 and 1.5) the order is
  scale, clamp, filter. Each of the three samples is multiplied by the gain, which is exact
  in double arithmetic; the product \<open>x\<close> is clamped to [-32768, 32767], that is, replaced
  by -32768 when it is below, by 32767 when it is above, and kept when it is inside; the
  filter combines the three clamped values. The filtered value then has its integer part
  in [-32768, 32767], so the output sample is that integer part: storing it does not wrap
  around, for any input.
\<close>

theorem gain_is_clamped_before_the_filter:
  assumes "i < length pcm24k div 3"
  shows "(let x1 = of_int (sint (pcm24k ! (i * 3))) * 5 / 2;
              x2 = of_int (sint (pcm24k ! (i * 3 + 1))) * 5 / 2;
              x3 = of_int (sint (pcm24k ! (i * 3 + 2))) * 5 / 2;
              p1 = (if x1 < - 32768 then - 32768 else if 32767 < x1 then 32767 else x1);
              p2 = (if x2 < - 32768 then - 32768 else if 32767 < x2 then 32767 else x2);
              p3 = (if x3 < - 32768 then - 32768 else if 32767 < x3 then 32767 else x3);
              v = js_add (js_add (js_mul p1 lit_0_2) (js_mul p2 lit_0_6)) (js_mul p3 lit_0_2)
          in js_mul (of_int (sint (pcm24k ! (i * 3)))) (5 / 2) = x1
             \<and> js_mul (of_int (sint (pcm24k ! (i * 3 + 1)))) (5 / 2) = x2
             \<and> js_mul (of_int (sint (pcm24k ! (i * 3 + 2)))) (5 / 2) = x3
             \<and> clamp16 x1 = p1 \<and> clamp16 x2 = p2 \<and> clamp16 x3 = p3
             \<and> - 32768 \<le> p1 \<and> p1 \<le> 32767 \<and> - 32768 \<le> p2 \<and> p2 \<le> 32767
             \<and> - 32768 \<le> p3 \<and> p3 \<le> 32767
             \<and> downsample24kTo8k_gain25 pcm24k ! i = toInt16 v
             \<and> - 32768 \<le> trunc v \<and> trunc v \<le> 32767
             \<and> sint (downsample24kTo8k_gain25 pcm24k ! i) = trunc v)
       \<and> (let x1 = of_int (sint (pcm24k ! (i * 3))) * 3 / 2;
              x2 = of_int (sint (pcm24k ! (i * 3 + 1))) * 3 / 2;
              x3 = of_int (sint (pcm24k ! (i * 3 + 2))) * 3 / 2;
              p1 = (if x1 < - 32768 then - 32768 else if 32767 < x1 then 32767 else x1);
              p2 = (if x2 < - 32768 then - 32768 else if 32767 < x2 then 32767 else x2);
              p3 = (if x3 < - 32768 then - 32768 else if 32767 < x3 then 32767 else x3);
              v = js_add (js_add (js_mul p1 (1 / 4)) (js_mul p2 (1 / 2))) (js_mul p3 (1 / 4))
          in js_mul (of_int (sint (pcm24k ! (i * 3)))) (3 / 2) = x1
             \<and> js_mul (of_int (sint (pcm24k ! (i * 3 + 1)))) (3 / 2) = x2
             \<and> js_mul (of_int (sint (pcm24k ! (i * 3 + 2)))) (3 / 2) = x3
             \<and> clamp16 x1 = p1 \<and> clamp16 x2 = p2 \<and> clamp16 x3 = p3
             \<and> - 32768 \<le> p1 \<and> p1 \<le> 32767 \<and> - 32768 \<le> p2 \<and> p2 \<le> 32767
             \<and> - 32768 \<le> p3 \<and> p3 \<le> 32767
             \<and> downsample24kTo8k_gain15 pcm24k ! i = toInt16 v
             \<and> - 32768 \<le> trunc v \<and> trunc v \<le> 32767
             \<and> sint (downsample24kTo8k_gain15 pcm24k ! i) = trunc v)"
proof -
  have c: "clamp16 x = (if x < - 32768 then - 32768 else if 32767 < x then 32767 else x)" for x
    by (simp add: clamp16_def max_def min_def)
  let ?v25 = "js_add (js_add (js_mul (clamp16 (js_mul (of_int (sint (pcm24k ! (i * 3)))) (5 / 2))) lit_0_2)
                             (js_mul (clamp16 (js_mul (of_int (sint (pcm24k ! (i * 3 + 1)))) (5 / 2))) lit_0_6))
                     (js_mul (clamp16 (js_mul (of_int (sint (pcm24k ! (i * 3 + 2)))) (5 / 2))) lit_0_2)"
  let ?v15 = "js_add (js_add (js_mul (clamp16 (js_mul (of_int (sint (pcm24k ! (i * 3)))) (3 / 2))) (1 / 4))
                             (js_mul (clamp16 (js_mul (of_int (sint (pcm24k ! (i * 3 + 1)))) (3 / 2))) (1 / 2)))
                     (js_mul (clamp16 (js_mul (of_int (sint (pcm24k ! (i * 3 + 2)))) (3 / 2))) (1 / 4))"
  have f25: "- 32768 \<le> trunc ?v25 \<and> trunc ?v25 \<le> 32767"
    by (rule filter_262_fits [OF clamp16_range clamp16_range clamp16_range])
  have e15: "?v15 = spec_triangular (clamp16 (of_int (sint (pcm24k ! (i * 3))) * 3 / 2))
                                    (clamp16 (of_int (sint (pcm24k ! (i * 3 + 1))) * 3 / 2))
                                    (clamp16 (of_int (sint (pcm24k ! (i * 3 + 2))) * 3 / 2))"
    by (simp only: scale_exact
        filter_121_exact [OF clamped_scaled(2) clamped_scaled(2) clamped_scaled(2)
                             clamped_scaled(3) clamped_scaled(3) clamped_scaled(3)])
  have f15: "- 32768 \<le> trunc ?v15 \<and> trunc ?v15 \<le> 32767"
    unfolding e15 using gain15_value(2,3) [OF assms] by simp
  have s: "sint (toInt16 ?v25) = trunc ?v25" "sint (toInt16 ?v15) = trunc ?v15"
    using f25 f15 by (simp_all only: sint_toInt16)
  have g25: "downsample24kTo8k_gain25 pcm24k ! i = toInt16 ?v25"
    by (rule downsample24kTo8k_gain25_nth [OF assms])
  have g15: "downsample24kTo8k_gain15 pcm24k ! i = toInt16 ?v15"
    by (rule downsample24kTo8k_gain15_nth [OF assms])
  note r = clamp16_range
  have A: "?v25 = js_add (js_add (js_mul (clamp16 (of_int (sint (pcm24k ! (i * 3))) * 5 / 2)) lit_0_2)
                             (js_mul (clamp16 (of_int (sint (pcm24k ! (i * 3 + 1))) * 5 / 2)) lit_0_6))
                     (js_mul (clamp16 (of_int (sint (pcm24k ! (i * 3 + 2))) * 5 / 2)) lit_0_2)"
    by (simp only: scale_exact)
  have B: "?v15 = js_add (js_add (js_mul (clamp16 (of_int (sint (pcm24k ! (i * 3))) * 3 / 2)) (1 / 4))
                             (js_mul (clamp16 (of_int (sint (pcm24k ! (i * 3 + 1))) * 3 / 2)) (1 / 2)))
                     (js_mul (clamp16 (of_int (sint (pcm24k ! (i * 3 + 2))) * 3 / 2)) (1 / 4))"
    by (simp only: scale_exact)
  show ?thesis
    unfolding Let_def c [symmetric]
    using f25 f15 s g25 g15 unfolding A B
    by (simp only: scale_exact clamp16_range simp_thms)
qed

text \<open>
  Samples that the gain leaves in range are filtered as they are; samples that it takes
  out of range enter the filter as 32767 or -32768.
\<close>

theorem gain_is_clamped_before_the_filter_witness:
  "sint (downsample24kTo8k_gain25 [100, 200, 300] ! 0) = 500
   \<and> sint (downsample24kTo8k_gain25 [30000, 100, - 30000] ! 0) = 149
   \<and> sint (downsample24kTo8k_gain15 [100, 200, 300] ! 0) = 300
   \<and> sint (downsample24kTo8k_gain15 [30000, - 30000, 100] ! 0) = - 8154"
proof -
  have v: "js_add (js_add (js_mul 250 lit_0_2) (js_mul 500 lit_0_6)) (js_mul 750 lit_0_2) = 500"
    "trunc (js_add (js_add (js_mul 32767 lit_0_2) (js_mul 250 lit_0_6)) (js_mul (- 32768) lit_0_2)) = 149"
    "js_add (js_add (js_mul 150 (1 / 4)) (js_mul 300 (1 / 2))) (js_mul 450 (1 / 4)) = 300"
    "trunc (js_add (js_add (js_mul 32767 (1 / 4)) (js_mul (- 32768) (1 / 2))) (js_mul 150 (1 / 4))) = - 8154"
    unfolding lit_0_2_def lit_0_6_def by code_simp+
  have i: "(0::nat) < length [100, 200, 300 :: 16 word] div 3"
    "(0::nat) < length [30000, 100, - 30000 :: 16 word] div 3"
    "(0::nat) < length [30000, - 30000, 100 :: 16 word] div 3" by simp_all
  have w: "sint (toInt16 500) = 500" "sint (toInt16 300) = 300"
    "sint (toInt16 (js_add (js_add (js_mul 32767 lit_0_2) (js_mul 250 lit_0_6)) (js_mul (- 32768) lit_0_2))) = 149"
    "sint (toInt16 (js_add (js_add (js_mul 32767 (1 / 4)) (js_mul (- 32768) (1 / 2))) (js_mul 150 (1 / 4)))) = - 8154"
    using v(2,4) by (simp_all add: sint_toInt16)
  from gain_is_clamped_before_the_filter [OF i(1)] gain_is_clamped_before_the_filter [OF i(2)]
    gain_is_clamped_before_the_filter [OF i(3)]
  show ?thesis by (simp add: Let_def v w)
qed

section \<open>Properties of tool execution\<close>

lemma string_of_nat_nonempty: "string_of_nat n \<noteq> []"
  by (subst string_of_nat.simps) simp












lemma respond_fields [simp]:
  "streamSid (respond fc r st) = streamSid st"
  "ws_open (respond fc r st) = ws_open st"
  "isSessionOpen (respond fc r st) = isSessionOpen st"
  "geminiSession (respond fc r st) = geminiSession st"
  "live (respond fc r st) = live st"
  "sent_twilio (respond fc r st) = sent_twilio st"
  "orders (respond fc r st) = orders st"
  "sent_model (respond fc r st) =
     sent_model st @ [ToolResponse \<lparr>resp_id = fc_id fc, resp_name = fc_name fc, resp_result = r\<rparr>]"
  by (simp_all add: respond_def to_model_def)



lemma array_index_names [simp]:
  "array_index ''id'' = None" "array_index ''created_at'' = None" "array_index ''status'' = None"
  "array_index ''customer_name'' = None" "array_index ''phone_number'' = None"
  "array_index ''note'' = None"
  by (simp_all add: array_index_def is_digit_def)



lemma create_order_keeps_an_id_argument:
  "orders (fst (dispatch (42, ''2025-01-01T10:00:00.000Z'')
     \<lparr>fc_id = ''call_1'', fc_name = ''create_order'',
      fc_args = Some [(''customer_name'', JStr ''Asha''), (''id'', JStr ''mine''),
                      (''status'', JStr ''paid'')]\<rparr>
     (on_connection (Parsed (JArr [JObj [(''id'', JStr ''ord_1'')]])))))
   = Parsed (JArr [JObj [(''id'', JStr ''mine''),
                         (''customer_name'', JStr ''Asha''),
                         (''status'', JStr ''created''),
                         (''created_at'', JStr ''2025-01-01T10:00:00.000Z'')],
                   JObj [(''id'', JStr ''ord_1'')]])"
  by (simp add: dispatch_def saveOrderToFile_def on_connection_def respond_def
      to_model_def result_created_def newOrder_def spread_def obj_set_def Let_def)

text \<open>Arguments named by array indices come first in the record, in ascending order.\<close>

lemma digit_value_simps:
  "digit_value CHR ''0'' = 0" "digit_value CHR ''1'' = 1" "digit_value CHR ''7'' = 7"
  by (simp_all add: digit_value_def)

lemma string_of_nat_small:
  "string_of_nat 7 = ''7''" "string_of_nat 10 = ''10''" "string_of_nat 1 = ''1''"
  by (simp_all add: string_of_nat.simps [of 7] string_of_nat.simps [of 10]
      string_of_nat.simps [of "Suc 0"])

lemma array_index_examples:
  "array_index ''7'' = Some 7" "array_index ''10'' = Some 10" "array_index ''07'' = None"
  by (simp_all add: array_index_def is_digit_def digit_value_simps string_of_nat_small)

lemma array_indices_come_first:
  "newOrder ''ord_42'' (Some [(''note'', JStr ''ring twice''), (''10'', JNum 1), (''7'', JNum 2)]) ''t''
   = JObj [(''7'', JNum 2), (''10'', JNum 1), (''id'', JStr ''ord_42''), (''note'', JStr ''ring twice''),
           (''created_at'', JStr ''t''), (''status'', JStr ''created'')]"
  by (simp add: newOrder_def spread_def obj_set_def array_index_examples)

text \<open>
  C5, as the code has it. A call whose name is neither \<^verbatim>\<open>create_order\<close> nor
  \<^verbatim>\<open>transfer_to_agent\<close> is answered with \<^verbatim>\<open>{status: "success"}\<close> under its id and name:
  nothing is raised, nothing else is sent, and the store and the session are left as they
  were. Both revisions do so.
\<close>

theorem unknown_tool_is_answered_success:
  assumes "fc_name fc \<noteq> ''create_order''" and "fc_name fc \<noteq> ''transfer_to_agent''"
  shows "dispatch clock fc st = (respond fc (JObj [(''status'', JStr ''success'')]) st, None)
       \<and> dispatch_r1 clock fc st = (respond fc (JObj [(''status'', JStr ''success'')]) st, None)
       \<and> respond fc (JObj [(''status'', JStr ''success'')]) st =
           st\<lparr>sent_model := sent_model st @
                [ToolResponse \<lparr>resp_id = fc_id fc, resp_name = fc_name fc,
                   resp_result = JObj [(''status'', JStr ''success'')]\<rparr>]\<rparr>"
  using assms
  by (cases clock) (simp add: dispatch_def dispatch_r1_def result_success_def respond_def to_model_def)

theorem unknown_tool_is_answered_success_witness:
  "dispatch (42, ''2025-01-01T10:00:00.000Z'')
     \<lparr>fc_id = ''call_7'', fc_name = ''cancel_order'', fc_args = None\<rparr> (on_connection Absent)
   = ((on_connection Absent)
        \<lparr>sent_model :=
           [ToolResponse \<lparr>resp_id = ''call_7'', resp_name = ''cancel_order'',
              resp_result = JObj [(''status'', JStr ''success'')]\<rparr>]\<rparr>,
      None)"
  using unknown_tool_is_answered_success
          [of "\<lparr>fc_id = ''call_7'', fc_name = ''cancel_order'', fc_args = None\<rparr>"
              "(42, ''2025-01-01T10:00:00.000Z'')" "on_connection Absent"]
  by (simp add: on_connection_def)

text \<open>The answer to an unknown tool is the answer to \<^verbatim>\<open>transfer_to_agent\<close>, a success.\<close>

theorem unknown_tool_gets_success_result:
  "sent_model (fst (dispatch (42, ''2025-01-01T10:00:00.000Z'')
     \<lparr>fc_id = ''call_7'', fc_name = ''cancel_order'', fc_args = Some []\<rparr> (on_connection Absent)))
   = [ToolResponse \<lparr>resp_id = ''call_7'', resp_name = ''cancel_order'', resp_result = result_success\<rparr>]
   \<and> sent_model (fst (dispatch (42, ''2025-01-01T10:00:00.000Z'')
     \<lparr>fc_id = ''call_8'', fc_name = ''transfer_to_agent'', fc_args = Some []\<rparr> (on_connection Absent)))
   = [ToolResponse \<lparr>resp_id = ''call_8'', resp_name = ''transfer_to_agent'', resp_result = result_success\<rparr>]
   \<and> result_success = JObj [(''status'', JStr ''success'')]"
  by (simp add: dispatch_def on_connection_def respond_def to_model_def result_success_def)

section \<open>Properties of the session relay\<close>

lemma ws_send_fields [simp]:
  "streamSid (ws_send m st) = streamSid st"
  "ws_open (ws_send m st) = ws_open st"
  "isSessionOpen (ws_send m st) = isSessionOpen st"
  "live (ws_send m st) = live st"
  "orders (ws_send m st) = orders st"
  "sent_model (ws_send m st) = sent_model st"
  "sent_twilio (ws_send m st) = (if ws_open st then sent_twilio st @ [m] else sent_twilio st)"
  by (simp_all add: ws_send_def)

lemma dispatch_keeps:
  "dispatch clock fc st = (st', e) \<Longrightarrow>
     streamSid st' = streamSid st \<and> ws_open st' = ws_open st \<and> sent_twilio st' = sent_twilio st"
  by (cases clock) (auto simp: dispatch_def Let_def split: if_splits sum.splits)

lemma dispatch_r1_keeps:
  "dispatch_r1 clock fc st = (st', e) \<Longrightarrow>
     streamSid st' = streamSid st \<and> ws_open st' = ws_open st \<and> sent_twilio st' = sent_twilio st"
  by (cases clock) (auto simp: dispatch_r1_def Let_def split: if_splits sum.splits option.splits)

lemma tool_loop_keeps:
  assumes body: "\<And>c fc st st' e. body c fc st = (st', e) \<Longrightarrow>
     streamSid st' = streamSid st \<and> ws_open st' = ws_open st \<and> sent_twilio st' = sent_twilio st"
  shows "tool_loop body clock k fcs st = (st', e) \<Longrightarrow>
     streamSid st' = streamSid st \<and> ws_open st' = ws_open st \<and> sent_twilio st' = sent_twilio st"
proof (induction fcs arbitrary: k st)
  case Nil
  then show ?case by simp
next
  case (Cons fc fcs)
  obtain st1 e1 where b: "body (clock k) fc st = (st1, e1)" by (cases "body (clock k) fc st")
  show ?case
  proof (cases e1)
    case None
    with Cons.prems b have "tool_loop body clock (Suc k) fcs st1 = (st', e)"
      by (simp add: and_then_def)
    from Cons.IH [OF this] body [OF b] show ?thesis by simp
  next
    case (Some err)
    with Cons.prems b have "st' = st1" by (simp add: and_then_def)
    with body [OF b] show ?thesis by simp
  qed
qed

lemma tool_part_keeps:
  assumes body: "\<And>c fc st st' e. body c fc st = (st', e) \<Longrightarrow>
     streamSid st' = streamSid st \<and> ws_open st' = ws_open st \<and> sent_twilio st' = sent_twilio st"
  shows "tool_part body clock msg st = (st', e) \<Longrightarrow>
     streamSid st' = streamSid st \<and> ws_open st' = ws_open st \<and> sent_twilio st' = sent_twilio st"
  using tool_loop_keeps [of body, OF body]
  by (auto simp: tool_part_def split: option.splits)

lemma audio_part_keeps:
  "audio_part msg st = (st', e) \<Longrightarrow> streamSid st' = streamSid st \<and> ws_open st' = ws_open st"
  by (auto simp: audio_part_def Let_def split: option.splits sum.splits if_splits)

lemma audio_part_sent:
  "streamSid st = Some sid \<Longrightarrow> sid \<noteq> [] \<Longrightarrow> ws_open st \<Longrightarrow> audio_part msg st = (st', None) \<Longrightarrow>
     sent_twilio st' = sent_twilio st @ media_of msg sid"
  by (auto simp: audio_part_def media_of_def Let_def split: option.splits sum.splits)

lemma audio_part_raises:
  "audio msg = Some b \<Longrightarrow> odd (length (backing b)) \<Longrightarrow> audio_part msg st = (st, Some RangeError)"
  by (simp add: audio_part_def new_Int16Array_def)

lemma audio_part_returns:
  "\<forall>b. audio msg = Some b \<longrightarrow> even (length (backing b)) \<Longrightarrow> snd (audio_part msg st) = None"
  by (auto simp: audio_part_def new_Int16Array_def Let_def split: option.splits)

lemma interrupted_part_sent:
  "streamSid st = Some sid \<Longrightarrow> sid \<noteq> [] \<Longrightarrow> ws_open st \<Longrightarrow> interrupted msg \<Longrightarrow>
     sent_twilio (interrupted_part msg st) = sent_twilio st @ [ClearOut sid]"
  by (simp add: interrupted_part_def)

lemma interrupted_generic:
  assumes body: "\<And>c fc st st' e. body c fc st = (st', e) \<Longrightarrow>
     streamSid st' = streamSid st \<and> ws_open st' = ws_open st \<and> sent_twilio st' = sent_twilio st"
    and st: "streamSid st = Some sid" "sid \<noteq> []" "ws_open st" and i: "interrupted msg"
    and run: "and_then (audio_part msg st)
                (\<lambda>st. and_then (tool_part body clock msg st)
                        (\<lambda>st. (interrupted_part msg st, None))) = (st', None)"
  shows "sent_twilio st' = sent_twilio st @ media_of msg sid @ [ClearOut sid]"
proof -
  obtain st1 e1 where a: "audio_part msg st = (st1, e1)" by (cases "audio_part msg st")
  obtain st2 e2 where t: "tool_part body clock msg st1 = (st2, e2)"
    by (cases "tool_part body clock msg st1")
  from run a have e1: "e1 = None" by (cases e1) (simp_all add: and_then_def)
  with run a t have e2: "e2 = None" by (cases e2) (simp_all add: and_then_def)
  from run a t e1 e2 have st': "st' = interrupted_part msg st2" by (simp add: and_then_def)
  from audio_part_keeps [OF a] audio_part_sent [OF st a [unfolded e1]] st
  have "streamSid st1 = Some sid" "ws_open st1" "sent_twilio st1 = sent_twilio st @ media_of msg sid"
    by simp_all
  with tool_part_keeps [of body, OF body t]
  have "streamSid st2 = Some sid" "ws_open st2"
    "sent_twilio st2 = sent_twilio st @ media_of msg sid" by simp_all
  with interrupted_part_sent [of st2 sid msg] i st' st(2) show ?thesis by simp
qed

text \<open>Silence: zero bytes are zero samples, which the resampler keeps and the codec sends as 0xCD.\<close>

lemma int16_elements_zeros: "int16_elements (replicate (2 * n) 0) = replicate n 0"
  by (induction n) simp_all

lemma downsample_zeros: "downsample24kTo8k_gain25 (replicate n 0) = replicate (n div 3) 0"
proof (rule nth_equalityI)
  show "length (downsample24kTo8k_gain25 (replicate n 0)) = length (replicate (n div 3) (0 :: 16 word))"
    by (simp add: downsample24kTo8k_length)
next
  fix i assume "i < length (downsample24kTo8k_gain25 (replicate n 0))"
  then have i: "i < length (replicate n (0 :: 16 word)) div 3" by (simp add: downsample24kTo8k_length)
  then have "i * 3 < n" "i * 3 + 1 < n" "i * 3 + 2 < n" by simp_all
  then show "downsample24kTo8k_gain25 (replicate n 0) ! i = replicate (n div 3) 0 ! i"
    using i
    by (simp add: downsample24kTo8k_gain25_nth [OF i] js_mul_def js_add_def clamp16_def
        toInt16_def)
qed

lemma encodeUlaw_zeros: "encodeUlaw (replicate n 0) = replicate n 0xCD"
proof -
  have "linearToUlaw_at 0 = 0xCD"
    by (simp add: linearToUlaw_at_def exponent_of_def codec_consts)
  then show ?thesis by (simp add: encodeUlaw_eq)
qed

lemma media_of_silence:
  "audio msg = Some b \<Longrightarrow> backing b = replicate (2 * n) 0 \<Longrightarrow>
     media_of msg sid = [MediaOut sid (replicate (n div 3) 0xCD)]"
  by (simp add: media_of_def new_Int16Array_def int16_elements_zeros downsample_zeros
      encodeUlaw_zeros)

text \<open>
  C3, as the code has it. In a session whose stream has started and whose telephony
  socket is open, a model message flagged as interrupted, once handled to the end, has sent
  the clear message for the stream as the last message to the telephony socket. It is the
  only message sent when the model message carries no audio; when it carries an audio
  chunk, the media message of that chunk is sent first and the clear message follows it.
  The media message carries the whole \<^verbatim>\<open>ArrayBuffer\<close> in which the chunk lies, resampled and
  encoded. When that \<^verbatim>\<open>ArrayBuffer\<close> has an odd number of bytes the handler raises a
  RangeError before it sends anything, and no clear message is sent. A model message without
  tool calls, whose audio, if any, lies in an \<^verbatim>\<open>ArrayBuffer\<close> with an even number of bytes,
  is always handled to the end. Both revisions do so.
\<close>

theorem clear_ends_interrupted_message:
  assumes "streaming st" and "interrupted msg"
  shows "\<exists>sid. streamSid st = Some sid
           \<and> (\<forall>st'. onmessage clock msg st = (st', None) \<or> onmessage_r1 clock msg st = (st', None) \<longrightarrow>
                 sent_twilio st' = sent_twilio st @ media_of msg sid @ [ClearOut sid])
           \<and> (audio msg = None \<longrightarrow> media_of msg sid = [])
           \<and> (\<forall>b. audio msg = Some b \<and> even (length (backing b)) \<longrightarrow>
                 media_of msg sid =
                   [MediaOut sid (encodeUlaw (downsample24kTo8k_gain25 (int16_elements (backing b))))])
           \<and> (\<forall>b. audio msg = Some b \<and> odd (length (backing b)) \<longrightarrow>
                 onmessage clock msg st = (st, Some RangeError)
                 \<and> onmessage_r1 clock msg st = (st, Some RangeError))
           \<and> (toolCall msg = None \<and> (\<forall>b. audio msg = Some b \<longrightarrow> even (length (backing b))) \<longrightarrow>
                 snd (onmessage clock msg st) = None \<and> snd (onmessage_r1 clock msg st) = None)"
proof -
  from assms(1) obtain sid where sid: "streamSid st = Some sid" and ne: "sid \<noteq> []"
    and ws: "ws_open st"
    by (auto simp: streaming_def split: option.splits)
  have r2: "sent_twilio st' = sent_twilio st @ media_of msg sid @ [ClearOut sid]"
    if "onmessage clock msg st = (st', None)" for st'
    using that interrupted_generic [of dispatch st sid msg clock st']
      dispatch_keeps sid ne ws assms(2) unfolding onmessage_def by blast
  have r1: "sent_twilio st' = sent_twilio st @ media_of msg sid @ [ClearOut sid]"
    if "onmessage_r1 clock msg st = (st', None)" for st'
    using that interrupted_generic [of dispatch_r1 st sid msg clock st']
      dispatch_r1_keeps sid ne ws assms(2) unfolding onmessage_r1_def by blast
  have m: "media_of msg sid =
             [MediaOut sid (encodeUlaw (downsample24kTo8k_gain25 (int16_elements (backing b))))]"
    if "audio msg = Some b" "even (length (backing b))" for b
    using that by (simp add: media_of_def new_Int16Array_def)
  have o: "onmessage clock msg st = (st, Some RangeError)
           \<and> onmessage_r1 clock msg st = (st, Some RangeError)"
    if "audio msg = Some b" "odd (length (backing b))" for b
    using audio_part_raises [OF that, of st]
    by (simp add: onmessage_def onmessage_r1_def and_then_def)
  have e: "snd (onmessage clock msg st) = None \<and> snd (onmessage_r1 clock msg st) = None"
    if "toolCall msg = None" "\<forall>b. audio msg = Some b \<longrightarrow> even (length (backing b))"
  proof -
    obtain st1 e1 where a: "audio_part msg st = (st1, e1)" by (cases "audio_part msg st")
    with audio_part_returns [OF that(2), of st] have "e1 = None" by simp
    with a that(1) show ?thesis
      by (simp add: onmessage_def onmessage_r1_def tool_part_def and_then_def)
  qed
  from sid r1 r2 m o e show ?thesis by (auto simp: media_of_def)
qed

theorem clear_ends_interrupted_message_witness:
  "sent_twilio (fst (onmessage (frozen_clock (42, ''2025-01-01T10:00:00.000Z''))
      \<lparr>audio = None, toolCall = None, interrupted = True\<rparr>
      (run [Twilio (Start ''MZ1'' None), ModelOpen] (on_connection Absent))))
   = [ClearOut ''MZ1'']"
proof -
  let ?st = "run [Twilio (Start ''MZ1'' None), ModelOpen] (on_connection Absent)"
  let ?msg = "\<lparr>audio = None, toolCall = None, interrupted = True\<rparr>"
  let ?clock = "frozen_clock (42, ''2025-01-01T10:00:00.000Z'')"
  have st: "streaming ?st" "streamSid ?st = Some ''MZ1''" "sent_twilio ?st = []"
    by (simp_all add: streaming_def run_def on_ws_message_def startGeminiSession_def
        onopen_def on_connection_def)
  have i: "interrupted ?msg" by simp
  have "snd (onmessage ?clock ?msg ?st) = None"
    using clear_ends_interrupted_message [OF st(1) i, of ?clock] by auto
  then have "onmessage ?clock ?msg ?st = (fst (onmessage ?clock ?msg ?st), None)"
    by (metis prod.collapse)
  with clear_ends_interrupted_message [OF st(1) i, of ?clock] st(2,3)
  show ?thesis by (auto simp: media_of_def)
qed

text \<open>
  An interrupted message that also carries an audio chunk (6000 bytes of silence, in an
  \<^verbatim>\<open>ArrayBuffer\<close> of their own): the next message to the telephony socket is the media
  message, and the clear comes second.
\<close>

theorem media_precedes_clear:
  "sent_twilio (fst (onmessage (frozen_clock (42, ''2025-01-01T10:00:00.000Z''))
      \<lparr>audio = Some \<lparr>backing = replicate 6000 0, byteOffset = 0, byteLength = 6000\<rparr>,
       toolCall = None, interrupted = True\<rparr>
      (run [Twilio (Start ''MZ1'' None), ModelOpen] (on_connection Absent))))
   = [MediaOut ''MZ1'' (replicate 1000 0xCD), ClearOut ''MZ1'']
   \<and> streaming (run [Twilio (Start ''MZ1'' None), ModelOpen] (on_connection Absent))"
proof -
  have "downsample24kTo8k_gain25 (int16_elements (replicate 6000 0)) = replicate 1000 0"
    using int16_elements_zeros [of 3000] by (simp add: downsample_zeros)
  then show ?thesis
    by (simp add: run_def on_ws_message_def startGeminiSession_def onopen_def on_connection_def
        onmessage_def tool_part_def and_then_def audio_part_def interrupted_part_def
        new_Int16Array_def encodeUlaw_zeros ws_send_def streaming_def Let_def)
qed

text \<open>
  A chunk of six bytes in a pool of 8192 is sent as 1365 bytes, a third of the samples of
  the pool; a chunk in an \<^verbatim>\<open>ArrayBuffer\<close> of 4097 bytes ends the handler, interrupted or not.
\<close>

lemma pooled_chunk_is_sent_with_its_pool:
  "sent_twilio (fst (onmessage (frozen_clock (42, ''2025-01-01T10:00:00.000Z''))
      \<lparr>audio = Some \<lparr>backing = replicate 8192 0, byteOffset = 0, byteLength = 6\<rparr>,
       toolCall = None, interrupted = False\<rparr>
      (run [Twilio (Start ''MZ1'' None), ModelOpen] (on_connection Absent))))
   = [MediaOut ''MZ1'' (replicate 1365 0xCD)]"
proof -
  have "downsample24kTo8k_gain25 (int16_elements (replicate 8192 0)) = replicate 1365 0"
    using int16_elements_zeros [of 4096] by (simp add: downsample_zeros)
  then show ?thesis
    by (simp add: run_def on_ws_message_def startGeminiSession_def onopen_def on_connection_def
        onmessage_def tool_part_def and_then_def audio_part_def interrupted_part_def
        new_Int16Array_def encodeUlaw_zeros ws_send_def Let_def)
qed

lemma odd_chunk_is_never_cleared:
  "onmessage (frozen_clock (42, ''2025-01-01T10:00:00.000Z''))
      \<lparr>audio = Some \<lparr>backing = replicate 4097 0, byteOffset = 0, byteLength = 4097\<rparr>,
       toolCall = None, interrupted = True\<rparr>
      (run [Twilio (Start ''MZ1'' None), ModelOpen] (on_connection Absent))
   = (run [Twilio (Start ''MZ1'' None), ModelOpen] (on_connection Absent), Some RangeError)"
  by (simp add: onmessage_def and_then_def audio_part_def new_Int16Array_def)

text \<open>
  C4. When one side of a session ends, the other should be closed too. In the second
  revision the Live session ending leaves the telephony socket open: \<^verbatim>\<open>onclose\<close> only
  clears \<^verbatim>\<open>isSessionOpen\<close>.
\<close>

theorem model_close_leaves_telephony_open:
  "ws_open (run [Twilio (Start ''MZ1'' (Some ''+9779800000000'')), ModelOpen, ModelClose]
              (on_connection Absent))
   \<and> live (run [Twilio (Start ''MZ1'' (Some ''+9779800000000'')), ModelOpen, ModelClose]
              (on_connection Absent)) = Ended"
  by (simp add: run_def on_ws_message_def startGeminiSession_def onopen_def onclose_def
      close_session_def on_connection_def)

text \<open>
  The first revision does close the telephony socket there, and in both revisions a
  \<^verbatim>\<open>stop\<close> from the telephony side ends the Live session.
\<close>

lemma first_revision_closes_telephony:
  "\<not> ws_open (step_r1 ModelClose st) \<and> live (step_r1 ModelClose st) = Ended"
  "\<not> ws_open (step_r1 (Twilio Stop) st) \<and> live (step_r1 (Twilio Stop) st) = Ended"
  by (simp_all add: close_session_def onclose_r1_def on_ws_message_r1_def)

lemma stop_ends_live_session:
  "geminiSession st \<Longrightarrow> live (step (Twilio Stop) st) = Ended"
  by (simp add: on_ws_message_def close_session_def onclose_def)

lemma second_revision_never_closes_telephony:
  "ws_open (step ev st) = ws_open st"
proof (cases ev)
  case (Twilio tev)
  then show ?thesis
    by (cases tev)
       (simp_all add: on_ws_message_def startGeminiSession_def forward_audio_def to_model_def
          close_session_def onclose_def Let_def)
next
  case ModelOpen
  then show ?thesis by (simp add: onopen_def)
next
  case (ModelMessage clock msg)
  obtain st' e where o: "onmessage clock msg st = (st', e)" by (cases "onmessage clock msg st")
  obtain st1 e1 where a: "audio_part msg st = (st1, e1)" by (cases "audio_part msg st")
  obtain st2 e2 where t: "tool_part dispatch clock msg st1 = (st2, e2)"
    by (cases "tool_part dispatch clock msg st1")
  from audio_part_keeps [OF a] have a': "ws_open st1 = ws_open st" by simp
  from tool_part_keeps [of dispatch, OF dispatch_keeps t] a' have t': "ws_open st2 = ws_open st"
    by simp
  have "ws_open (interrupted_part msg st2) = ws_open st2"
    by (simp add: interrupted_part_def split: option.splits)
  with a' t' have "ws_open st' = ws_open st"
    using o a t by (cases e1; cases e2) (auto simp: onmessage_def and_then_def)
  then show ?thesis using ModelMessage o by simp
next
  case ModelClose
  then show ?thesis by (simp add: close_session_def onclose_def)
qed

end
